theory Spec2Isabelle
  imports Main "HOL-Library.Char_ord" "HOL-Library.List_Lexorder"
begin

section \<open>Time: datetimes, durations and the fixed timestamp format\<close>

text \<open>
  The service reads the clock with \<^verbatim>\<open>datetime.now(timezone.utc)\<close>, adds a
  \<^verbatim>\<open>timedelta\<close> and renders the result with
  \<^verbatim>\<open>strftime("%Y-%m-%d %H:%M:%S")\<close>. A Python datetime is a value of the proleptic
  Gregorian calendar held as its fields; two datetimes of the same time zone compare
  field by field, most significant first. Adding a duration goes through the day ordinal
  (day 1 is 0001-01-01) and raises \<^verbatim>\<open>OverflowError\<close> outside the years 1 to 9999.
\<close>

record datetime =
  year :: nat
  month :: nat
  day :: nat
  hour :: nat
  minute :: nat
  second :: nat
  microsecond :: nat

text \<open>A duration is its total number of microseconds (negative durations exist).\<close>

type_synonym timedelta = int

definition timedelta_seconds :: "int \<Rightarrow> timedelta" where
  "timedelta_seconds n = n * 1000000"

definition timedelta_minutes :: "int \<Rightarrow> timedelta" where
  "timedelta_minutes n = n * 60 * 1000000"

definition timedelta_days :: "int \<Rightarrow> timedelta" where
  "timedelta_days n = n * 86400 * 1000000"

definition is_leap :: "nat \<Rightarrow> bool" where
  "is_leap y = (y mod 4 = 0 \<and> (y mod 100 \<noteq> 0 \<or> y mod 400 = 0))"

definition days_before_year :: "nat \<Rightarrow> nat" where
  "days_before_year y = (y - 1) * 365 + (y - 1) div 4 - (y - 1) div 100 + (y - 1) div 400"

definition DAYS_IN_MONTH :: "nat list" where
  "DAYS_IN_MONTH = [0, 31, 28, 31, 30, 31, 30, 31, 31, 30, 31, 30, 31]"

definition DAYS_BEFORE_MONTH :: "nat list" where
  "DAYS_BEFORE_MONTH = [0, 0, 31, 59, 90, 120, 151, 181, 212, 243, 273, 304, 334]"

definition days_in_month :: "nat \<Rightarrow> nat \<Rightarrow> nat" where
  "days_in_month y m = (if m = 2 \<and> is_leap y then 29 else DAYS_IN_MONTH ! m)"

definition days_before_month :: "nat \<Rightarrow> nat \<Rightarrow> nat" where
  "days_before_month y m = DAYS_BEFORE_MONTH ! m + (if 2 < m \<and> is_leap y then 1 else 0)"

definition ymd2ord :: "nat \<Rightarrow> nat \<Rightarrow> nat \<Rightarrow> nat" where
  "ymd2ord y m d = days_before_year y + days_before_month y m + d"

text \<open>
  The month and day of the \<open>n\<close>-th day (from 0) of a year: an estimate of the month
  that is exact or one too large, corrected against the table.
\<close>

definition month_day :: "bool \<Rightarrow> nat \<Rightarrow> nat \<times> nat" where
  "month_day leapyear n =
     (let m = (n + 50) div 32;
          preceding = DAYS_BEFORE_MONTH ! m + (if 2 < m \<and> leapyear then 1 else 0)
      in if n < preceding
         then (m - 1,
               n + (DAYS_IN_MONTH ! (m - 1) + (if m - 1 = 2 \<and> leapyear then 1 else 0))
                 - preceding + 1)
         else (m, n - preceding + 1))"

text \<open>
  The date of a day ordinal, by cycles of 400, 100, 4 and 1 years (146097, 36524, 1461
  and 365 days).
\<close>

definition ord2ymd :: "nat \<Rightarrow> nat \<times> nat \<times> nat" where
  "ord2ymd n0 =
     (let n = n0 - 1;
          n400 = n div 146097; r400 = n mod 146097;
          n100 = r400 div 36524; r100 = r400 mod 36524;
          n4 = r100 div 1461; r4 = r100 mod 1461;
          n1 = r4 div 365; r1 = r4 mod 365;
          y = n400 * 400 + 1 + n100 * 100 + n4 * 4 + n1
      in if n1 = 4 \<or> n100 = 4 then (y - 1, 12, 31)
         else (case month_day (n1 = 3 \<and> (n4 \<noteq> 24 \<or> n100 = 3)) r1 of
                 (m, d) \<Rightarrow> (y, m, d)))"

definition MAXORDINAL :: nat where
  "MAXORDINAL = 3652059"

text \<open>The values a datetime can hold: a date of the calendar in the years 1 to 9999.\<close>

definition valid_date :: "nat \<Rightarrow> nat \<Rightarrow> nat \<Rightarrow> bool" where
  "valid_date y m d = (1 \<le> y \<and> 1 \<le> m \<and> m \<le> 12 \<and> 1 \<le> d \<and> d \<le> days_in_month y m)"

definition valid_datetime :: "datetime \<Rightarrow> bool" where
  "valid_datetime t =
     (valid_date (year t) (month t) (day t) \<and> year t \<le> 9999 \<and>
      hour t < 24 \<and> minute t < 60 \<and> second t < 60 \<and> microsecond t < 1000000)"

text \<open>Comparison of two datetimes: their fields, most significant first.\<close>

definition dt_fields :: "datetime \<Rightarrow> nat list" where
  "dt_fields t = [year t, month t, day t, hour t, minute t, second t, microsecond t]"

definition dt_le :: "datetime \<Rightarrow> datetime \<Rightarrow> bool" where
  "dt_le a b = (dt_fields a \<le> dt_fields b)"

definition dt_lt :: "datetime \<Rightarrow> datetime \<Rightarrow> bool" where
  "dt_lt a b = (dt_fields a < dt_fields b)"

text \<open>The datetime without its sub-second part, which the timestamp format drops.\<close>

definition whole_second :: "datetime \<Rightarrow> datetime" where
  "whole_second t = t\<lparr>microsecond := 0\<rparr>"

text \<open>Seconds and microseconds since the start of day ordinal 0, and back.\<close>

definition to_s :: "datetime \<Rightarrow> nat" where
  "to_s t = ((ymd2ord (year t) (month t) (day t) * 24 + hour t) * 60 + minute t) * 60 + second t"

definition to_us :: "datetime \<Rightarrow> nat" where
  "to_us t =
     (((ymd2ord (year t) (month t) (day t) * 24 + hour t) * 60 + minute t) * 60 + second t)
       * 1000000 + microsecond t"

definition of_us :: "nat \<Rightarrow> datetime" where
  "of_us u =
     (let days = u div 86400000000; r = u mod 86400000000;
          secs = r div 1000000
      in case ord2ymd days of
           (y, m, d) \<Rightarrow>
             \<lparr>year = y, month = m, day = d, hour = secs div 3600,
              minute = secs mod 3600 div 60, second = secs mod 60,
              microsecond = r mod 1000000\<rparr>)"

datatype error =
    OverflowError
  | IndexError
  | TypeError string
  | Exception string
  | HTTPException nat string

text \<open>\<^verbatim>\<open>str(e)\<close> of an exception.\<close>

fun error_str :: "error \<Rightarrow> string" where
  "error_str OverflowError = ''date value out of range''"
| "error_str IndexError = ''list index out of range''"
| "error_str (TypeError msg) = msg"
| "error_str (Exception msg) = msg"
| "error_str (HTTPException code detail) = detail"

text \<open>\<^verbatim>\<open>dt + delta\<close>: out of the supported range the addition raises.\<close>

definition dt_add :: "datetime \<Rightarrow> timedelta \<Rightarrow> error + datetime" where
  "dt_add t delta =
     (let u = int (to_us t) + delta; days = u div 86400000000
      in if 0 < days \<and> days \<le> int MAXORDINAL then Inr (of_us (nat u))
         else Inl OverflowError)"

text \<open>
  \<^verbatim>\<open>strftime("%Y-%m-%d %H:%M:%S")\<close>: the month, day, hour, minute and second are
  two decimal digits each; the year is written in decimal as it is, which is four digits
  from the year 1000 on.
\<close>

definition digit_char :: "nat \<Rightarrow> char" where
  "digit_char n = char_of (48 + n)"

fun str_nat :: "nat \<Rightarrow> string" where
  "str_nat n = (if n < 10 then [digit_char n] else str_nat (n div 10) @ [digit_char (n mod 10)])"

definition pad2 :: "nat \<Rightarrow> string" where
  "pad2 n = [digit_char (n div 10 mod 10), digit_char (n mod 10)]"

definition strftime :: "datetime \<Rightarrow> string" where
  "strftime t =
     str_nat (year t) @ ''-'' @ pad2 (month t) @ ''-'' @ pad2 (day t) @ '' '' @
     pad2 (hour t) @ '':'' @ pad2 (minute t) @ '':'' @ pad2 (second t)"

section \<open>Configuration\<close>

text \<open>
  \<^verbatim>\<open>Config\<close>: the subscription lifetime granted on each renewal (a whole number of
  days), the poll interval in seconds, and the fixed five-minute lead of the scheduler
  module. An unset or empty environment variable gives the default.
\<close>

record Config =
  SUBSCRIPTION_DURATION :: timedelta
  RENEWAL_INTERVAL :: int
  TIME_BEFORE_EXPIRATION :: timedelta

definition load_config :: "int option \<Rightarrow> int option \<Rightarrow> Config" where
  "load_config subscription_duration renewal_interval =
     \<lparr>SUBSCRIPTION_DURATION =
        timedelta_days (case subscription_duration of None \<Rightarrow> 1 | Some n \<Rightarrow> n),
      RENEWAL_INTERVAL = (case renewal_interval of None \<Rightarrow> 3600 | Some n \<Rightarrow> n),
      TIME_BEFORE_EXPIRATION = timedelta_minutes 5\<rparr>"

section \<open>The subscriptions table\<close>

text \<open>
  One row of the table \<^verbatim>\<open>subscriptions\<close>. Every column but \<^verbatim>\<open>last_updated\<close> is
  \<^verbatim>\<open>NOT NULL\<close>; \<^verbatim>\<open>subscription_id\<close> is \<^verbatim>\<open>UNIQUE\<close>; \<^verbatim>\<open>id\<close> and \<^verbatim>\<open>created_at\<close> are
  assigned by the database.
\<close>

record Subscriptions =
  id_col :: nat
  created_at :: string
  last_updated :: "string option"
  domain :: string
  model :: string
  expires :: string
  subscription_id :: string
  post_url :: string
  user :: string
  oauth_token :: string
  refresh_token :: string

text \<open>
  A keyword dictionary (\<^verbatim>\<open>filters\<close>, \<^verbatim>\<open>update_data\<close>): keys with their values in
  insertion order, \<open>None\<close> for Python's \<^verbatim>\<open>None\<close>.
\<close>

type_synonym kwargs = "(string \<times> string option) list"

definition string_columns :: "string list" where
  "string_columns = [''last_updated'', ''domain'', ''model'', ''expires'', ''subscription_id'',
     ''post_url'', ''user'', ''oauth_token'', ''refresh_token'']"

definition columns :: "string list" where
  "columns = [''id'', ''created_at''] @ string_columns"

text \<open>The value of a string column of a row.\<close>

definition getattr :: "Subscriptions \<Rightarrow> string \<Rightarrow> string option" where
  "getattr row k =
     (if k = ''last_updated'' then last_updated row
      else if k = ''domain'' then Some (domain row)
      else if k = ''model'' then Some (model row)
      else if k = ''expires'' then Some (expires row)
      else if k = ''subscription_id'' then Some (subscription_id row)
      else if k = ''post_url'' then Some (post_url row)
      else if k = ''user'' then Some (user row)
      else if k = ''oauth_token'' then Some (oauth_token row)
      else if k = ''refresh_token'' then Some (refresh_token row)
      else None)"

text \<open>\<^verbatim>\<open>filter_by(**filters)\<close>: the row has the given value in every named column.\<close>

definition matches :: "kwargs \<Rightarrow> Subscriptions \<Rightarrow> bool" where
  "matches filters row = list_all (\<lambda>(k, v). getattr row k = v) filters"

text \<open>
  \<^verbatim>\<open>setattr(row, key, value)\<close> as the commit sees it. A key that is no column becomes
  a plain attribute of the Python object and nothing is stored for it. \<open>None\<close> in a
  \<^verbatim>\<open>NOT NULL\<close> column, or a string in \<^verbatim>\<open>id\<close> or \<^verbatim>\<open>created_at\<close>, fails the flush.
\<close>

definition setattr :: "Subscriptions \<Rightarrow> string \<Rightarrow> string option \<Rightarrow> Subscriptions option" where
  "setattr row k v =
     (if k = ''last_updated'' then Some (row\<lparr>last_updated := v\<rparr>)
      else if k \<in> set columns then
        (case v of
           None \<Rightarrow> None
         | Some s \<Rightarrow>
             if k = ''domain'' then Some (row\<lparr>domain := s\<rparr>)
             else if k = ''model'' then Some (row\<lparr>model := s\<rparr>)
             else if k = ''expires'' then Some (row\<lparr>expires := s\<rparr>)
             else if k = ''subscription_id'' then Some (row\<lparr>subscription_id := s\<rparr>)
             else if k = ''post_url'' then Some (row\<lparr>post_url := s\<rparr>)
             else if k = ''user'' then Some (row\<lparr>user := s\<rparr>)
             else if k = ''oauth_token'' then Some (row\<lparr>oauth_token := s\<rparr>)
             else if k = ''refresh_token'' then Some (row\<lparr>refresh_token := s\<rparr>)
             else None)
      else Some row)"

text \<open>The inner loop \<^verbatim>\<open>for key, value in update_data.items(): setattr(row, key, value)\<close>.\<close>

fun set_all :: "kwargs \<Rightarrow> Subscriptions \<Rightarrow> Subscriptions option" where
  "set_all [] row = Some row"
| "set_all ((k, v) # kvs) row =
     (case setattr row k v of None \<Rightarrow> None | Some row' \<Rightarrow> set_all kvs row')"

text \<open>The outer loop \<^verbatim>\<open>for row in rows\<close> over the matching rows, the others kept.\<close>

fun update_rows :: "kwargs \<Rightarrow> kwargs \<Rightarrow> Subscriptions list \<Rightarrow> Subscriptions list option" where
  "update_rows filters update_data [] = Some []"
| "update_rows filters update_data (row # rows) =
     (case (if matches filters row then set_all update_data row else Some row) of
        None \<Rightarrow> None
      | Some row' \<Rightarrow>
          (case update_rows filters update_data rows of
             None \<Rightarrow> None
           | Some rows' \<Rightarrow> Some (row' # rows')))"

text \<open>
  \<^verbatim>\<open>model(**data)\<close> and the insert: the constructor raises \<^verbatim>\<open>TypeError\<close> on a key
  that is no attribute of the class; the flush fails when a \<^verbatim>\<open>NOT NULL\<close> column has
  no value. In a dictionary the last value given for a key counts.
\<close>

definition lookup :: "kwargs \<Rightarrow> string \<Rightarrow> string option" where
  "lookup data k = (case map_of (rev data) k of None \<Rightarrow> None | Some v \<Rightarrow> v)"

definition new_instance :: "nat \<Rightarrow> string \<Rightarrow> kwargs \<Rightarrow> Subscriptions option" where
  "new_instance next_id created data =
     (case (lookup data ''domain'', lookup data ''model'', lookup data ''expires'',
            lookup data ''subscription_id'', lookup data ''post_url'', lookup data ''user'',
            lookup data ''oauth_token'', lookup data ''refresh_token'') of
        (Some d, Some m, Some e, Some s, Some p, Some u, Some t, Some r) \<Rightarrow>
          if list_all (\<lambda>(k, v). k \<in> set string_columns) data
          then Some \<lparr>id_col = next_id, created_at = created,
                     last_updated = lookup data ''last_updated'', domain = d, model = m,
                     expires = e, subscription_id = s, post_url = p, user = u,
                     oauth_token = t, refresh_token = r\<rparr>
          else None
      | _ \<Rightarrow> None)"

section \<open>The environment: clock, database server and remote platform\<close>

text \<open>
  What the remote platform answers. Of a token response the service reads the status and
  the keys \<^verbatim>\<open>access_token\<close>, \<^verbatim>\<open>refresh_token\<close> and \<^verbatim>\<open>expires_in\<close>; of a
  subscription response the status, the key \<^verbatim>\<open>subscription_id\<close> and the two ISO
  datetimes, given here as \<^verbatim>\<open>datetime.fromisoformat\<close> reads them (\<open>None\<close> when the key
  is missing or does not parse).
\<close>

record token_json =
  access_token :: "string option"
  json_refresh_token :: "string option"
  expires_in :: "int option"

record subscription_json =
  json_subscription_id :: "string option"
  subscription_creation_datetime :: "datetime option"
  subscription_expires_datetime :: "datetime option"

text \<open>
  The environment answers each interaction by its position \<open>n\<close> in the run (the number
  of interactions before it) and by what is asked, so that a remote platform or a clock
  whose answers change with time is covered. \<open>str_hash\<close> fixes the order in which a
  Python set of strings is iterated.
\<close>

record env =
  clock :: "nat \<Rightarrow> datetime"
  db_fails :: "nat \<Rightarrow> bool"
  current_timestamp :: "nat \<Rightarrow> string"
  str_hash :: "string \<Rightarrow> nat"
  post_tokens_password :: "nat \<Rightarrow> string \<Rightarrow> string \<Rightarrow> nat \<times> token_json"
  post_tokens_refresh :: "nat \<Rightarrow> string \<Rightarrow> nat \<times> token_json"
  post_subscriptions ::
    "nat \<Rightarrow> string \<Rightarrow> string \<Rightarrow> string \<Rightarrow> string \<Rightarrow> string \<Rightarrow> nat \<times> subscription_json"
  put_subscription :: "nat \<Rightarrow> string \<Rightarrow> string \<Rightarrow> string \<Rightarrow> string \<Rightarrow> nat"

text \<open>
  Everything the service does to the outside world, in order. A refresh request carries
  the domain it is made for (the loop variable at the call), which only the trace sees.
\<close>

datatype event =
    ClockRead datetime
  | DbSelect
  | DbCommit "Subscriptions list"
  | DbRollback
  | TokenRequest string string
  | RefreshRequest string string
  | SubscriptionCreate string string string string string
  | SubscriptionUpdate string string string string

record state =
  store :: "Subscriptions list"
  trace :: "event list"

definition log :: "event \<Rightarrow> state \<Rightarrow> state" where
  "log e st = st\<lparr>trace := trace st @ [e]\<rparr>"

text \<open>\<^verbatim>\<open>datetime.now(timezone.utc)\<close>.\<close>

definition now :: "env \<Rightarrow> state \<Rightarrow> datetime \<times> state" where
  "now en st = (let t = clock en (length (trace st)) in (t, log (ClockRead t) st))"

text \<open>Python's truth value of a string that may be \<^verbatim>\<open>None\<close>.\<close>

definition truthy :: "string option \<Rightarrow> bool" where
  "truthy v = (case v of None \<Rightarrow> False | Some s \<Rightarrow> s \<noteq> [])"

section \<open>The remote API client\<close>

text \<open>What \<^verbatim>\<open>get_token\<close> and \<^verbatim>\<open>refresh_access_token\<close> return: the response's
  dictionary with the key \<^verbatim>\<open>expires\<close> added.\<close>

record token_data = token_json +
  token_expires :: string

definition with_expires :: "token_json \<Rightarrow> string \<Rightarrow> token_data" where
  "with_expires j e =
     \<lparr>access_token = access_token j, json_refresh_token = json_refresh_token j,
      expires_in = expires_in j, token_expires = e\<rparr>"

text \<open>\<^verbatim>\<open>token_data.get("expires_in", 0)\<close> seconds from now, rendered.\<close>

definition token_expiry :: "env \<Rightarrow> token_json \<Rightarrow> state \<Rightarrow> (error + token_data) \<times> state" where
  "token_expiry en j st =
     (case now en st of
        (t, st1) \<Rightarrow>
          (case dt_add t (timedelta_seconds (case expires_in j of None \<Rightarrow> 0 | Some n \<Rightarrow> n)) of
             Inl e \<Rightarrow> (Inl e, st1)
           | Inr x \<Rightarrow> (Inr (with_expires j (strftime x)), st1)))"

definition get_token :: "env \<Rightarrow> string \<Rightarrow> string \<Rightarrow> state \<Rightarrow> (error + token_data) \<times> state" where
  "get_token en username password st =
     (case post_tokens_password en (length (trace st)) username password of
        (status_code, token_json) \<Rightarrow>
          (let st1 = log (TokenRequest username password) st
           in if status_code = 200 then
                if truthy (access_token token_json) then token_expiry en token_json st1
                else (Inl (Exception ''Oauth Failed to return an access token''), st1)
              else (Inl (Exception ''Failed to get token''), st1)))"

definition refresh_access_token ::
  "env \<Rightarrow> string \<Rightarrow> string \<Rightarrow> state \<Rightarrow> (error + token_data) \<times> state" where
  "refresh_access_token en for_domain refresh_tok st =
     (case post_tokens_refresh en (length (trace st)) refresh_tok of
        (status_code, token_json) \<Rightarrow>
          (let st1 = log (RefreshRequest for_domain refresh_tok) st
           in if status_code = 200 then token_expiry en token_json st1
              else (Inl (Exception ''Failed to refresh token''), st1)))"

text \<open>What \<^verbatim>\<open>create_subscription\<close> returns: the keys of the response the service
  reads, and \<^verbatim>\<open>created_at\<close> and \<^verbatim>\<open>expires_at\<close> as rendered from the ISO datetimes.\<close>

record subscription_data =
  sd_subscription_id :: "string option"
  sd_created_at :: string
  sd_expires_at :: string

definition create_subscription ::
  "env \<Rightarrow> string \<Rightarrow> string \<Rightarrow> string \<Rightarrow> string \<Rightarrow> string \<Rightarrow> state
     \<Rightarrow> (error + subscription_data) \<times> state" where
  "create_subscription en model_name url domain_name usr token st =
     (case post_subscriptions en (length (trace st)) model_name url domain_name usr token of
        (status_code, j) \<Rightarrow>
          (let st1 = log (SubscriptionCreate model_name url domain_name usr token) st
           in if status_code = 200 \<or> status_code = 201 then
                (case (subscription_creation_datetime j, subscription_expires_datetime j) of
                   (Some c, Some e) \<Rightarrow>
                     (Inr \<lparr>sd_subscription_id = json_subscription_id j,
                           sd_created_at = strftime c, sd_expires_at = strftime e\<rparr>, st1)
                 | _ \<Rightarrow> (Inl (Exception ''Failed to parse subscription response''), st1))
              else (Inl (Exception ''Failed to create subscription''), st1)))"

definition update_subscription ::
  "env \<Rightarrow> string \<Rightarrow> string \<Rightarrow> string \<Rightarrow> string \<Rightarrow> state \<Rightarrow> (error + unit) \<times> state" where
  "update_subscription en new_expire sub_id token domain_name st =
     (let status_code = put_subscription en (length (trace st)) new_expire sub_id token domain_name;
          st1 = log (SubscriptionUpdate new_expire sub_id token domain_name) st
      in if status_code = 202 then (Inr (), st1)
         else (Inl (Exception ''Failed to update subscription''), st1))"

section \<open>Database access\<close>

text \<open>
  Each function runs in a session of \<^verbatim>\<open>get_session\<close>: a database error inside the
  session rolls it back and leaves as \<^verbatim>\<open>HTTPException(500, "Database session error")\<close>,
  any other exception as \<^verbatim>\<open>HTTPException(500, "Unexpected database session error")\<close>;
  otherwise the session commits. A failed session changes nothing in the table.
\<close>

definition session_error :: error where
  "session_error = HTTPException 500 ''Database session error''"

definition unexpected_session_error :: error where
  "unexpected_session_error = HTTPException 500 ''Unexpected database session error''"

definition filters_ok :: "kwargs \<Rightarrow> bool" where
  "filters_ok filters = list_all (\<lambda>(k, v). k \<in> set string_columns) filters"

definition fetch_expiring_subscriptions ::
  "env \<Rightarrow> Config \<Rightarrow> state \<Rightarrow> (error + Subscriptions list) \<times> state" where
  "fetch_expiring_subscriptions en cfg st =
     (case now en st of
        (t, st1) \<Rightarrow>
          (case dt_add t (timedelta_seconds (RENEWAL_INTERVAL cfg)) of
             Inl e \<Rightarrow> (Inl e, st1)
           | Inr renewal_threshold \<Rightarrow>
               (let renewal_threshold_str = strftime renewal_threshold
                in if db_fails en (length (trace st1)) then (Inl session_error, log DbRollback st1)
                   else (Inr (filter (\<lambda>row. expires row \<le> renewal_threshold_str) (store st1)),
                         log DbSelect st1))))"

definition read_from_table :: "env \<Rightarrow> kwargs \<Rightarrow> state \<Rightarrow> (error + Subscriptions list) \<times> state" where
  "read_from_table en filters st =
     (if db_fails en (length (trace st)) \<or> \<not> filters_ok filters
      then (Inl session_error, log DbRollback st)
      else (Inr (filter (matches filters) (store st)), log DbSelect st))"

text \<open>
  \<^verbatim>\<open>update_table\<close>: with matching rows, every one of them gets every value of
  \<^verbatim>\<open>update_data\<close>; with none, a row is inserted from the filters and the data together.
  All of it is one transaction: it commits whole or not at all.
\<close>

definition update_table :: "env \<Rightarrow> kwargs \<Rightarrow> kwargs \<Rightarrow> state \<Rightarrow> (error + unit) \<times> state" where
  "update_table en filters update_data st =
     (let n = length (trace st) in
      if db_fails en n \<or> \<not> filters_ok filters then (Inl session_error, log DbRollback st)
      else if filter (matches filters) (store st) = [] then
        (let data = filters @ update_data in
         if \<not> list_all (\<lambda>(k, v). k \<in> set columns) data
         then (Inl unexpected_session_error, log DbRollback st)
         else
           (case new_instance (Suc (foldr max (map id_col (store st)) 0)) (current_timestamp en n) data of
              None \<Rightarrow> (Inl session_error, log DbRollback st)
            | Some row \<Rightarrow>
                if subscription_id row \<in> set (map subscription_id (store st))
                then (Inl session_error, log DbRollback st)
                else (Inr (), log (DbCommit (store st @ [row])) (st\<lparr>store := store st @ [row]\<rparr>))))
      else
        (case update_rows filters update_data (store st) of
           None \<Rightarrow> (Inl session_error, log DbRollback st)
         | Some rows \<Rightarrow>
             if distinct (map subscription_id rows)
             then (Inr (), log (DbCommit rows) (st\<lparr>store := rows\<rparr>))
             else (Inl session_error, log DbRollback st)))"

section \<open>The subscription service\<close>

text \<open>
  \<^verbatim>\<open>list({d.domain for d in subscriptions})\<close>: each domain once, in the order the set
  yields them, which the strings' hashes fix.
\<close>

definition unique_domains :: "env \<Rightarrow> Subscriptions list \<Rightarrow> string list" where
  "unique_domains en subscriptions = sort_key (str_hash en) (remdups (map domain subscriptions))"

text \<open>
  The loop over the subscriptions of one domain: the remote update, then the local one.
  Nothing catches an exception here, so the first one ends the loop and goes on up.
\<close>

fun update_each ::
  "env \<Rightarrow> string \<Rightarrow> string \<Rightarrow> string option \<Rightarrow> Subscriptions list \<Rightarrow> state
     \<Rightarrow> (error + unit) \<times> state" where
  "update_each en new_expire new_oauth_token new_refresh_token [] st = (Inr (), st)"
| "update_each en new_expire new_oauth_token new_refresh_token (sublist # rest) st =
     (case update_subscription en new_expire (subscription_id sublist) new_oauth_token
             (domain sublist) st of
        (Inl e, st1) \<Rightarrow> (Inl e, st1)
      | (Inr u, st1) \<Rightarrow>
          (case now en st1 of
             (t, st2) \<Rightarrow>
               (case update_table en [(''subscription_id'', Some (subscription_id sublist))]
                       [(''expires'', Some new_expire),
                        (''last_updated'', Some (strftime t)),
                        (''oauth_token'', Some new_oauth_token),
                        (''refresh_token'', new_refresh_token)] st2 of
                  (Inl e, st3) \<Rightarrow> (Inl e, st3)
                | (Inr u', st3) \<Rightarrow>
                    update_each en new_expire new_oauth_token new_refresh_token rest st3)))"

text \<open>The body of the loop over the domains, for the domain \<open>sub\<close>.\<close>

definition renew_domain :: "env \<Rightarrow> string \<Rightarrow> string \<Rightarrow> state \<Rightarrow> (error + unit) \<times> state" where
  "renew_domain en new_expire sub st =
     (case read_from_table en [(''domain'', Some sub)] st of
        (Inl e, st1) \<Rightarrow> (Inl e, st1)
      | (Inr expiring_subs, st1) \<Rightarrow>
          (case expiring_subs of
             [] \<Rightarrow> (Inl IndexError, st1)
           | first # others \<Rightarrow>
               (case refresh_access_token en sub (refresh_token first) st1 of
                  (Inl e, st2) \<Rightarrow> (Inl e, st2)
                | (Inr new_token_data, st2) \<Rightarrow>
                    if truthy (access_token new_token_data)
                    then update_each en new_expire (the (access_token new_token_data))
                           (json_refresh_token new_token_data) expiring_subs st2
                    else (Inl (Exception ''Failed to get new token for {sub.domain}''), st2))))"

fun renew_domains :: "env \<Rightarrow> string \<Rightarrow> string list \<Rightarrow> state \<Rightarrow> (error + unit) \<times> state" where
  "renew_domains en new_expire [] st = (Inr (), st)"
| "renew_domains en new_expire (sub # rest) st =
     (case renew_domain en new_expire sub st of
        (Inl e, st1) \<Rightarrow> (Inl e, st1)
      | (Inr u, st1) \<Rightarrow> renew_domains en new_expire rest st1)"

definition check_and_update_subscriptions ::
  "env \<Rightarrow> Config \<Rightarrow> state \<Rightarrow> (error + unit) \<times> state" where
  "check_and_update_subscriptions en cfg st =
     (case fetch_expiring_subscriptions en cfg st of
        (Inl e, st1) \<Rightarrow> (Inl e, st1)
      | (Inr subscriptions, st1) \<Rightarrow>
          (let expiring_domain = unique_domains en subscriptions
           in if expiring_domain \<noteq> [] then
                (case now en st1 of
                   (t, st2) \<Rightarrow>
                     (case dt_add t (SUBSCRIPTION_DURATION cfg) of
                        Inl e \<Rightarrow> (Inl e, st2)
                      | Inr new_expire_dt_obj \<Rightarrow>
                          renew_domains en (strftime new_expire_dt_obj) expiring_domain st2))
              else (Inr (), st1)))"



text \<open>The creation request and \<^verbatim>\<open>setup_new_subscription\<close>.\<close>

record SubscriptionRequest =
  req_domain :: string
  req_model :: string
  req_post_url :: string
  req_user :: string
  req_username :: string
  req_password :: string

record creation_result =
  res_status :: string
  res_subscription_id :: string
  res_expires :: string

definition setup_new_subscription ::
  "env \<Rightarrow> SubscriptionRequest \<Rightarrow> state \<Rightarrow> (error + creation_result) \<times> state" where
  "setup_new_subscription en request st =
     (case get_token en (req_username request) (req_password request) st of
        (Inl e, st1) \<Rightarrow> (Inl (HTTPException 401 ''Authentication failed''), st1)
      | (Inr token_dict, st1) \<Rightarrow>
          if \<not> truthy (access_token token_dict)
          then (Inl (HTTPException 500 ''Failed to retrieve access token''), st1)
          else
            (let access = the (access_token token_dict) in
             case create_subscription en (req_model request) (req_post_url request)
                    (req_domain request) (req_user request) access st1 of
               (Inl e, st2) \<Rightarrow> (Inl (HTTPException 500 (error_str e)), st2)
             | (Inr subscription_response, st2) \<Rightarrow>
                 if \<not> truthy (sd_subscription_id subscription_response)
                 then (Inl (HTTPException 500 ''Failed to retrieve subscription ID from NS API''), st2)
                 else
                   (let sub_id = the (sd_subscription_id subscription_response) in
                    case now en st2 of
                      (t, st3) \<Rightarrow>
                        (case update_table en [(''subscription_id'', Some sub_id)]
                                [(''subscription_id'', Some sub_id),
                                 (''domain'', Some (req_domain request)),
                                 (''model'', Some (req_model request)),
                                 (''expires'', Some (sd_expires_at subscription_response)),
                                 (''post_url'', Some (req_post_url request)),
                                 (''user'', Some (req_user request)),
                                 (''oauth_token'', Some access),
                                 (''renewal_token'', json_refresh_token token_dict),
                                 (''last_updated'', Some (strftime t))] st3 of
                           (Inl e, st4) \<Rightarrow>
                             (Inl (HTTPException 500
                                ''Failed to update database with subscription info''), st4)
                         | (Inr u, st4) \<Rightarrow>
                             (Inr \<lparr>res_status = ''success'', res_subscription_id = sub_id,
                                   res_expires = sd_expires_at subscription_response\<rparr>, st4)))))"

section \<open>What a run shows\<close>

text \<open>The committed states of the table, in order, among the events of a trace.\<close>

fun commits :: "event list \<Rightarrow> Subscriptions list list" where
  "commits [] = []"
| "commits (DbCommit rows # es) = rows # commits es"
| "commits (e # es) = commits es"

fun is_refresh_for :: "string \<Rightarrow> event \<Rightarrow> bool" where
  "is_refresh_for d (RefreshRequest for_domain tok) = (for_domain = d)"
| "is_refresh_for d e = False"

fun is_push_for :: "string \<Rightarrow> event \<Rightarrow> bool" where
  "is_push_for d (SubscriptionUpdate new_expire sub_id token domain_name) = (domain_name = d)"
| "is_push_for d e = False"

fun is_remote_call :: "event \<Rightarrow> bool" where
  "is_remote_call (ClockRead t) = False"
| "is_remote_call DbSelect = False"
| "is_remote_call (DbCommit rows) = False"
| "is_remote_call DbRollback = False"
| "is_remote_call e = True"

fun is_commit :: "event \<Rightarrow> bool" where
  "is_commit (DbCommit rows) = True"
| "is_commit e = False"

text \<open>
  A row after a renewal with expiry \<open>new_expire\<close> and the token pair \<open>(tok, rtok)\<close>: the
  three fields and \<^verbatim>\<open>last_updated\<close> are new, everything else is as it was.
\<close>

definition renewed :: "string \<Rightarrow> string \<Rightarrow> string \<Rightarrow> Subscriptions \<Rightarrow> Subscriptions \<Rightarrow> bool" where
  "renewed new_expire tok rtok r r' =
     (\<exists>lu. r' = r\<lparr>expires := new_expire, last_updated := Some lu, oauth_token := tok,
                     refresh_token := rtok\<rparr>)"

text \<open>
  A row as the renewal of the subscriptions with identifiers \<open>ids\<close> may leave it,
  the new token pair being \<open>(tok, rt)\<close>: untouched, or, when it is one of them and the
  refresh token is there, renewed with exactly that expiry and that pair.
\<close>

definition renewal_step ::
  "string \<Rightarrow> string \<Rightarrow> string option \<Rightarrow> string set \<Rightarrow> Subscriptions \<Rightarrow> Subscriptions \<Rightarrow> bool" where
  "renewal_step new_expire tok rt ids r r' =
     (r' = r \<or> (subscription_id r \<in> ids \<and> (\<exists>x. rt = Some x \<and> renewed new_expire tok x r r')))"

text \<open>
  A row as a renewal cycle with expiry \<open>new_expire\<close> may leave it: untouched, or, when its
  domain is among \<open>D\<close>, renewed with some token pair.
\<close>

definition row_step :: "string \<Rightarrow> string set \<Rightarrow> Subscriptions \<Rightarrow> Subscriptions \<Rightarrow> bool" where
  "row_step new_expire D r r' =
     (r' = r \<or> (domain r \<in> D \<and> (\<exists>tok rtok. renewed new_expire tok rtok r r')))"

text \<open>
  An event as a renewal of the domains \<open>D\<close> may log it, the table being \<open>rows0\<close> before:
  requests only for those domains, pushes only of the new expiry, and commits that
  change rows only as \<open>row_step\<close> allows.
\<close>

fun ev_ok :: "string \<Rightarrow> string set \<Rightarrow> Subscriptions list \<Rightarrow> event \<Rightarrow> bool" where
  "ev_ok new_expire D rows0 (RefreshRequest for_domain tok) = (for_domain \<in> D)"
| "ev_ok new_expire D rows0 (SubscriptionUpdate e sub_id token domain_name) =
     (e = new_expire \<and> domain_name \<in> D)"
| "ev_ok new_expire D rows0 (DbCommit rows) = list_all2 (row_step new_expire D) rows0 rows"
| "ev_ok new_expire D rows0 (TokenRequest username password) = False"
| "ev_ok new_expire D rows0 (SubscriptionCreate m p d u t) = False"
| "ev_ok new_expire D rows0 e = True"

text \<open>A token response with which a refresh fails: no success status, or no access token.\<close>

definition refresh_failed :: "nat \<times> token_json \<Rightarrow> bool" where
  "refresh_failed response =
     (case response of (status_code, j) \<Rightarrow> status_code \<noteq> 200 \<or> \<not> truthy (access_token j))"

text \<open>
  Among the events \<open>evs\<close>, the first of which is the \<open>n0\<close>-th interaction of the run,
  a refresh request made for the domain \<open>d\<close> has failed.
\<close>

fun failed_refresh_for :: "env \<Rightarrow> nat \<Rightarrow> string \<Rightarrow> event list \<Rightarrow> bool" where
  "failed_refresh_for en n0 d [] = False"
| "failed_refresh_for en n0 d (RefreshRequest for_domain tok # es) =
     ((for_domain = d \<and> refresh_failed (post_tokens_refresh en n0 tok)) \<or>
      failed_refresh_for en (Suc n0) d es)"
| "failed_refresh_for en n0 d (e # es) = failed_refresh_for en (Suc n0) d es"

section \<open>Example data\<close>

definition example_now :: datetime where
  "example_now = \<lparr>year = 2025, month = 1, day = 1, hour = 0, minute = 0, second = 0, microsecond = 0\<rparr>"

definition example_config :: Config where
  "example_config = load_config None None"

definition example_row :: "nat \<Rightarrow> string \<Rightarrow> string \<Rightarrow> string \<Rightarrow> string \<Rightarrow> Subscriptions" where
  "example_row i d sid e rt =
     \<lparr>id_col = i, created_at = ''2024-12-01 00:00:00'', last_updated = None, domain = d,
      model = ''call'', expires = e, subscription_id = sid,
      post_url = ''https://example.com/callback'', user = ''1000'',
      oauth_token = ''old-access'', refresh_token = rt\<rparr>"

text \<open>
  Three subscriptions at 2025-01-01 00:00:00 with a poll interval of one hour: two of the
  domain \<open>a.com\<close>, one expiring in 30 minutes and one in a year, with different refresh
  tokens, and one of \<open>b.com\<close> expiring in 45 minutes.
\<close>

definition example_store :: "Subscriptions list" where
  "example_store =
     [example_row 1 ''a.com'' ''s1'' ''2025-01-01 00:30:00'' ''r1'',
      example_row 2 ''a.com'' ''s2'' ''2026-01-01 00:00:00'' ''r2'',
      example_row 3 ''b.com'' ''s3'' ''2025-01-01 00:45:00'' ''r3'']"

definition example_state :: state where
  "example_state = \<lparr>store = example_store, trace = []\<rparr>"

text \<open>
  An environment in which everything works: the clock stands at \<open>example_now\<close>, the
  token endpoint answers 200 with a fresh pair, the update endpoint 202. The variants
  refuse the refresh token \<open>r1\<close>, and the update of the subscription \<open>s1\<close>.
\<close>

definition example_token :: token_json where
  "example_token =
     \<lparr>access_token = Some ''new-access'', json_refresh_token = Some ''new-refresh'',
      expires_in = Some 3600\<rparr>"

definition example_env :: env where
  "example_env =
     \<lparr>clock = (\<lambda>n. example_now), db_fails = (\<lambda>n. False),
      current_timestamp = (\<lambda>n. ''2025-01-01 00:00:00''), str_hash = (\<lambda>s. 0),
      post_tokens_password = (\<lambda>n username password. (200, example_token)),
      post_tokens_refresh = (\<lambda>n tok. (200, example_token)),
      post_subscriptions = (\<lambda>n m p d u t.
        (201, \<lparr>json_subscription_id = Some ''s1'',
               subscription_creation_datetime = Some example_now,
               subscription_expires_datetime = Some (example_now\<lparr>day := 2\<rparr>)\<rparr>)),
      put_subscription = (\<lambda>n e sid t d. 202)\<rparr>"

definition refresh_refused_env :: env where
  "refresh_refused_env =
     example_env\<lparr>post_tokens_refresh :=
       (\<lambda>n tok. if tok = ''r1'' then (400, \<lparr>access_token = None, json_refresh_token = None,
                                             expires_in = None\<rparr>)
                 else (200, example_token))\<rparr>"

definition update_refused_env :: env where
  "update_refused_env =
     example_env\<lparr>put_subscription := (\<lambda>n e sid t d. if sid = ''s1'' then 500 else 202)\<rparr>"

text \<open>The datetimes that the \<^verbatim>\<open>expires\<close> strings of \<open>example_store\<close> render.\<close>

definition example_expiry :: "Subscriptions \<Rightarrow> datetime" where
  "example_expiry r =
     (if subscription_id r = ''s1'' then example_now\<lparr>minute := 30\<rparr>
      else if subscription_id r = ''s2'' then example_now\<lparr>year := 2026\<rparr>
      else example_now\<lparr>minute := 45\<rparr>)"

text \<open>A row of \<open>example_store\<close> after its renewal at \<open>example_now\<close> with \<open>example_token\<close>.\<close>

definition example_renewed :: "Subscriptions \<Rightarrow> Subscriptions" where
  "example_renewed r =
     r\<lparr>expires := ''2025-01-02 00:00:00'', last_updated := Some ''2025-01-01 00:00:00'',
       oauth_token := ''new-access'', refresh_token := ''new-refresh''\<rparr>"

section \<open>Calendar arithmetic\<close>

lemma div_mod_unique: "r < m \<Longrightarrow> (m * q + r) div m = (q::nat) \<and> (m * q + r) mod m = r"
  by simp

lemma days_before_year_cycles:
  assumes "b \<le> 3" "c \<le> 24" "d \<le> 3"
  shows "days_before_year (400 * a + 100 * b + 4 * c + d + 1) =
     146097 * a + 36524 * b + 1461 * c + 365 * d"
proof -
  define k where "k = 400 * a + 100 * b + 4 * c + d"
  have "k = 4 * (100 * a + 25 * b + c) + d" by (simp add: k_def)
  then have d4: "k div 4 = 100 * a + 25 * b + c" using assms(3) div_mod_unique[of d 4] by simp
  have "k = 100 * (4 * a + b) + (4 * c + d)" by (simp add: k_def)
  moreover have "4 * c + d < 100" using assms by simp
  ultimately have d100: "k div 100 = 4 * a + b" using div_mod_unique[of "4 * c + d" 100] by simp
  have "k = 400 * a + (100 * b + 4 * c + d)" by (simp add: k_def)
  moreover have "100 * b + 4 * c + d < 400" using assms by simp
  ultimately have d400: "k div 400 = a" using div_mod_unique[of "100 * b + 4 * c + d" 400] by simp
  have "days_before_year (k + 1) = k * 365 + k div 4 - k div 100 + k div 400"
    by (simp add: days_before_year_def)
  also have "\<dots> = 146097 * a + 36524 * b + 1461 * c + 365 * d"
    unfolding d4 d100 d400 by (simp add: k_def)
  finally show ?thesis by (simp add: k_def)
qed

lemma mod_zero_upto: "0 < x \<Longrightarrow> x \<le> m \<Longrightarrow> (x mod m = 0) = (x = (m::nat))"
  by (cases "x = m") auto

lemma is_leap_cycles:
  assumes "b \<le> 3" "c \<le> 24" "d \<le> 3"
  shows "is_leap (400 * a + 100 * b + 4 * c + d + 1) = (d = 3 \<and> (c \<noteq> 24 \<or> b = 3))"
proof -
  define y where "y = 400 * a + 100 * b + 4 * c + d + 1"
  have "y = 4 * (100 * a + 25 * b + c) + (d + 1)" by (simp add: y_def)
  then have m4: "y mod 4 = (d + 1) mod 4" by (simp only: mod_mult_self4)
  have "y = 100 * (4 * a + b) + (4 * c + d + 1)" by (simp add: y_def)
  then have m100: "y mod 100 = (4 * c + d + 1) mod 100" by (simp only: mod_mult_self4)
  have "y = 400 * a + (100 * b + 4 * c + d + 1)" by (simp add: y_def)
  then have m400: "y mod 400 = (100 * b + 4 * c + d + 1) mod 400" by (simp only: mod_mult_self4)
  have "((d + 1) mod 4 = 0) = (d + 1 = 4)" using assms(3) by (intro mod_zero_upto) simp_all
  then have 1: "((d + 1) mod 4 = 0) = (d = 3)" by simp
  have "((4 * c + d + 1) mod 100 = 0) = (4 * c + d + 1 = 100)"
    using assms by (intro mod_zero_upto) simp_all
  also have "\<dots> = (c = 24 \<and> d = 3)" using assms by linarith
  finally have 2: "((4 * c + d + 1) mod 100 = 0) = (c = 24 \<and> d = 3)" .
  have "((100 * b + 4 * c + d + 1) mod 400 = 0) = (100 * b + 4 * c + d + 1 = 400)"
    using assms by (intro mod_zero_upto) simp_all
  also have "\<dots> = (b = 3 \<and> c = 24 \<and> d = 3)" using assms by linarith
  finally have 3: "((100 * b + 4 * c + d + 1) mod 400 = 0) = (b = 3 \<and> c = 24 \<and> d = 3)" .
  show ?thesis unfolding y_def[symmetric] is_leap_def m4 m100 m400 1 2 3 by blast
qed

lemma month_day_correct:
  assumes "n < (if leap then 366 else 365)"
  shows "case month_day leap n of (m, d) \<Rightarrow>
           1 \<le> m \<and> m \<le> 12 \<and> 1 \<le> d \<and>
           d \<le> (if m = 2 \<and> leap then 29 else DAYS_IN_MONTH ! m) \<and>
           DAYS_BEFORE_MONTH ! m + (if 2 < m \<and> leap then 1 else 0) + d = n + 1"
proof -
  define m where "m = (n + 50) div 32"
  have "1 \<le> m" "m \<le> 12" using assms by (auto simp: m_def split: if_splits)
  then consider "m = 1" | "m = 2" | "m = 3" | "m = 4" | "m = 5" | "m = 6" | "m = 7"
    | "m = 8" | "m = 9" | "m = 10" | "m = 11" | "m = 12" by atomize_elim arith
  then show ?thesis
  proof cases
    case 1
    then have "(n + 50) div 32 = 1" by (simp add: m_def)
    moreover from this have "32 \<le> n + 50" "n + 50 < 64" by arith+
    ultimately show ?thesis using assms
      by (simp add: month_day_def DAYS_BEFORE_MONTH_def DAYS_IN_MONTH_def split: if_splits; arith?)
  next
    case 2
    then have "(n + 50) div 32 = 2" by (simp add: m_def)
    moreover from this have "64 \<le> n + 50" "n + 50 < 96" by arith+
    ultimately show ?thesis using assms
      by (simp add: month_day_def DAYS_BEFORE_MONTH_def DAYS_IN_MONTH_def split: if_splits; arith?)
  next
    case 3
    then have "(n + 50) div 32 = 3" by (simp add: m_def)
    moreover from this have "96 \<le> n + 50" "n + 50 < 128" by arith+
    ultimately show ?thesis using assms
      by (simp add: month_day_def DAYS_BEFORE_MONTH_def DAYS_IN_MONTH_def split: if_splits; arith?)
  next
    case 4
    then have "(n + 50) div 32 = 4" by (simp add: m_def)
    moreover from this have "128 \<le> n + 50" "n + 50 < 160" by arith+
    ultimately show ?thesis using assms
      by (simp add: month_day_def DAYS_BEFORE_MONTH_def DAYS_IN_MONTH_def split: if_splits; arith?)
  next
    case 5
    then have "(n + 50) div 32 = 5" by (simp add: m_def)
    moreover from this have "160 \<le> n + 50" "n + 50 < 192" by arith+
    ultimately show ?thesis using assms
      by (simp add: month_day_def DAYS_BEFORE_MONTH_def DAYS_IN_MONTH_def split: if_splits; arith?)
  next
    case 6
    then have "(n + 50) div 32 = 6" by (simp add: m_def)
    moreover from this have "192 \<le> n + 50" "n + 50 < 224" by arith+
    ultimately show ?thesis using assms
      by (simp add: month_day_def DAYS_BEFORE_MONTH_def DAYS_IN_MONTH_def split: if_splits; arith?)
  next
    case 7
    then have "(n + 50) div 32 = 7" by (simp add: m_def)
    moreover from this have "224 \<le> n + 50" "n + 50 < 256" by arith+
    ultimately show ?thesis using assms
      by (simp add: month_day_def DAYS_BEFORE_MONTH_def DAYS_IN_MONTH_def split: if_splits; arith?)
  next
    case 8
    then have "(n + 50) div 32 = 8" by (simp add: m_def)
    moreover from this have "256 \<le> n + 50" "n + 50 < 288" by arith+
    ultimately show ?thesis using assms
      by (simp add: month_day_def DAYS_BEFORE_MONTH_def DAYS_IN_MONTH_def split: if_splits; arith?)
  next
    case 9
    then have "(n + 50) div 32 = 9" by (simp add: m_def)
    moreover from this have "288 \<le> n + 50" "n + 50 < 320" by arith+
    ultimately show ?thesis using assms
      by (simp add: month_day_def DAYS_BEFORE_MONTH_def DAYS_IN_MONTH_def split: if_splits; arith?)
  next
    case 10
    then have "(n + 50) div 32 = 10" by (simp add: m_def)
    moreover from this have "320 \<le> n + 50" "n + 50 < 352" by arith+
    ultimately show ?thesis using assms
      by (simp add: month_day_def DAYS_BEFORE_MONTH_def DAYS_IN_MONTH_def split: if_splits; arith?)
  next
    case 11
    then have "(n + 50) div 32 = 11" by (simp add: m_def)
    moreover from this have "352 \<le> n + 50" "n + 50 < 384" by arith+
    ultimately show ?thesis using assms
      by (simp add: month_day_def DAYS_BEFORE_MONTH_def DAYS_IN_MONTH_def split: if_splits; arith?)
  next
    case 12
    then have "(n + 50) div 32 = 12" by (simp add: m_def)
    moreover from this have "384 \<le> n + 50" "n + 50 < 416" by arith+
    ultimately show ?thesis using assms
      by (simp add: month_day_def DAYS_BEFORE_MONTH_def DAYS_IN_MONTH_def split: if_splits; arith?)
  qed
qed


lemma ord2ymd_correct:
  assumes "1 \<le> n"
  shows "case ord2ymd n of (y, m, d) \<Rightarrow>
           1 \<le> y \<and> 1 \<le> m \<and> m \<le> 12 \<and> 1 \<le> d \<and> d \<le> days_in_month y m \<and>
           ymd2ord y m d = n"
proof -
  define a where "a = (n - 1) div 146097"
  define r400 where "r400 = (n - 1) mod 146097"
  define b where "b = r400 div 36524"
  define r100 where "r100 = r400 mod 36524"
  define c where "c = r100 div 1461"
  define r4 where "r4 = r100 mod 1461"
  define d where "d = r4 div 365"
  define r1 where "r1 = r4 mod 365"
  have e400: "n = 146097 * a + r400 + 1" "r400 < 146097"
    using assms by (simp_all add: a_def r400_def)
  have e100: "r400 = 36524 * b + r100" "r100 < 36524" by (simp_all add: b_def r100_def)
  have e4: "r100 = 1461 * c + r4" "r4 < 1461" by (simp_all add: c_def r4_def)
  have e1: "r4 = 365 * d + r1" "r1 < 365" by (simp_all add: d_def r1_def)
  have b4: "b \<le> 4" using e400(2) e100(1) by arith
  have c24: "c \<le> 24" using e100(2) e4(1) by arith
  have d4: "d \<le> 4" using e4(2) e1(1) by arith
  have total: "n = 146097 * a + 36524 * b + 1461 * c + 365 * d + r1 + 1"
    using e400(1) e100(1) e4(1) e1(1) by linarith
  have unf: "ord2ymd n =
      (if d = 4 \<or> b = 4 then (a * 400 + 1 + b * 100 + c * 4 + d - 1, 12, 31)
       else (case month_day (d = 3 \<and> (c \<noteq> 24 \<or> b = 3)) r1 of
               (m, dd) \<Rightarrow> (a * 400 + 1 + b * 100 + c * 4 + d, m, dd)))"
    unfolding ord2ymd_def Let_def a_def r400_def b_def r100_def c_def r4_def d_def r1_def
    by (rule refl)
  show ?thesis
  proof (cases "b = 4")
    case True
    have "r100 = 0" using True e400(2) e100(1) by arith
    then have z: "c = 0" "d = 0" "r1 = 0" using e4(1) e1(1) by simp_all
    have o: "ord2ymd n = (400 * a + 100 * 3 + 4 * 24 + 3 + 1, 12, 31)"
      unfolding unf using True z by simp
    have dby: "days_before_year (400 * a + 100 * 3 + 4 * 24 + 3 + 1) = 146097 * a + 36524 * 3 + 1461 * 24 + 365 * 3"
      by (rule days_before_year_cycles) simp_all
    have lp: "is_leap (400 * a + 100 * 3 + 4 * 24 + 3 + 1)"
      by (subst is_leap_cycles) simp_all
    have "ymd2ord (400 * a + 100 * 3 + 4 * 24 + 3 + 1) 12 31 = n"
      unfolding ymd2ord_def dby days_before_month_def using lp total True z
      by (simp add: DAYS_BEFORE_MONTH_def)
    moreover have "31 \<le> days_in_month (400 * a + 100 * 3 + 4 * 24 + 3 + 1) 12"
      by (simp add: days_in_month_def DAYS_IN_MONTH_def)
    ultimately show ?thesis unfolding o by simp
  next
    case False
    then have b3: "b \<le> 3" using b4 by simp
    show ?thesis
    proof (cases "d = 4")
      case True
      then have r10: "r1 = 0" using e1(1) e4(2) by arith
      have cn: "c \<noteq> 24" using True e100(2) e4(1) e1(1) by arith
      have o: "ord2ymd n = (400 * a + 100 * b + 4 * c + 3 + 1, 12, 31)"
        unfolding unf using True by simp
      have dby: "days_before_year (400 * a + 100 * b + 4 * c + 3 + 1) = 146097 * a + 36524 * b + 1461 * c + 365 * 3"
        by (rule days_before_year_cycles) (use b3 c24 in simp_all)
      have lp: "is_leap (400 * a + 100 * b + 4 * c + 3 + 1)"
        by (subst is_leap_cycles) (use b3 c24 cn in simp_all)
      have "ymd2ord (400 * a + 100 * b + 4 * c + 3 + 1) 12 31 = n"
        unfolding ymd2ord_def dby days_before_month_def using lp total True r10
        by (simp add: DAYS_BEFORE_MONTH_def)
      moreover have "31 \<le> days_in_month (400 * a + 100 * b + 4 * c + 3 + 1) 12"
        by (simp add: days_in_month_def DAYS_IN_MONTH_def)
      ultimately show ?thesis unfolding o by simp
    next
      case dn4: False
      then have d3: "d \<le> 3" using d4 by simp
      define leap where "leap = (d = 3 \<and> (c \<noteq> 24 \<or> b = 3))"
      obtain m dd where md: "month_day leap r1 = (m, dd)" by (cases "month_day leap r1")
      have "r1 < (if leap then 366 else 365)" using e1(2) by simp
      from month_day_correct[OF this] md
      have mdc: "1 \<le> m" "m \<le> 12" "1 \<le> dd"
        "dd \<le> (if m = 2 \<and> leap then 29 else DAYS_IN_MONTH ! m)"
        "DAYS_BEFORE_MONTH ! m + (if 2 < m \<and> leap then 1 else 0) + dd = r1 + 1"
        by simp_all
      define Y where "Y = 400 * a + 100 * b + 4 * c + d + 1"
      have dby: "days_before_year Y = 146097 * a + 36524 * b + 1461 * c + 365 * d"
        unfolding Y_def by (rule days_before_year_cycles) (use b3 c24 d3 in simp_all)
      have lp: "is_leap Y = leap"
        unfolding leap_def Y_def by (rule is_leap_cycles) (use b3 c24 d3 in simp_all)
      have o: "ord2ymd n = (Y, m, dd)"
        unfolding unf leap_def[symmetric] Y_def using False dn4 md by simp
      have "ymd2ord Y m dd = n"
        unfolding ymd2ord_def dby days_before_month_def lp using mdc(5) total by linarith
      moreover have "dd \<le> days_in_month Y m"
        unfolding days_in_month_def lp using mdc(4) by simp
      moreover have "1 \<le> Y" by (simp add: Y_def)
      ultimately show ?thesis unfolding o using mdc by simp
    qed
  qed
qed

lemma year_cycles_ex:
  "\<exists>a b c d. k = 400 * a + 100 * b + 4 * c + d \<and> b \<le> 3 \<and> c \<le> 24 \<and> d \<le> (3::nat)"
proof -
  define a where "a = k div 400"
  define r where "r = k mod 400"
  define b where "b = r div 100"
  define r' where "r' = r mod 100"
  define c where "c = r' div 4"
  define d where "d = r' mod 4"
  have 1: "k = 400 * a + r" "r < 400" by (simp_all add: a_def r_def)
  have 2: "r = 100 * b + r'" "r' < 100" by (simp_all add: b_def r'_def)
  have 3: "r' = 4 * c + d" "d < 4" by (simp_all add: c_def d_def)
  have "b \<le> 3" using 1(2) 2(1) by arith
  moreover have "c \<le> 24" using 2(2) 3(1) by arith
  moreover have "d \<le> 3" using 3(2) by simp
  moreover have "k = 400 * a + 100 * b + 4 * c + d" using 1(1) 2(1) 3(1) by linarith
  ultimately show ?thesis by blast
qed

lemma days_before_year_Suc:
  assumes "1 \<le> y"
  shows "days_before_year (y + 1) = days_before_year y + (if is_leap y then 366 else 365)"
proof -
  obtain a b c d where k: "y - 1 = 400 * a + 100 * b + 4 * c + d" "b \<le> 3" "c \<le> 24" "d \<le> 3"
    using year_cycles_ex[of "y - 1"] by blast
  then have y: "y = 400 * a + 100 * b + 4 * c + d + 1" using assms by simp
  have dy: "days_before_year y = 146097 * a + 36524 * b + 1461 * c + 365 * d"
    unfolding y by (rule days_before_year_cycles) (use k in simp_all)
  have ly: "is_leap y = (d = 3 \<and> (c \<noteq> 24 \<or> b = 3))"
    unfolding y by (rule is_leap_cycles) (use k in simp_all)
  consider (d) "d < 3" | (c) "d = 3" "c < 24" | (b) "d = 3" "c = 24" "b < 3"
    | (a) "d = 3" "c = 24" "b = 3" using k by atomize_elim arith
  then show ?thesis
  proof cases
    case d
    have "y + 1 = 400 * a + 100 * b + 4 * c + (d + 1) + 1" by (simp add: y)
    moreover have "days_before_year (400 * a + 100 * b + 4 * c + (d + 1) + 1)
       = 146097 * a + 36524 * b + 1461 * c + 365 * (d + 1)"
      by (rule days_before_year_cycles) (use k d in simp_all)
    ultimately show ?thesis using dy ly d by simp
  next
    case c
    have "y + 1 = 400 * a + 100 * b + 4 * (c + 1) + 0 + 1" by (simp add: y c)
    moreover have "days_before_year (400 * a + 100 * b + 4 * (c + 1) + 0 + 1)
       = 146097 * a + 36524 * b + 1461 * (c + 1) + 365 * 0"
      by (rule days_before_year_cycles) (use k c in simp_all)
    ultimately show ?thesis using dy ly c by simp
  next
    case b
    have "y + 1 = 400 * a + 100 * (b + 1) + 4 * 0 + 0 + 1" by (simp add: y b)
    moreover have "days_before_year (400 * a + 100 * (b + 1) + 4 * 0 + 0 + 1)
       = 146097 * a + 36524 * (b + 1) + 1461 * 0 + 365 * 0"
      by (rule days_before_year_cycles) (use k b in simp_all)
    ultimately show ?thesis using dy ly b by simp
  next
    case a
    have "y + 1 = 400 * (a + 1) + 100 * 0 + 4 * 0 + 0 + 1" by (simp add: y a)
    moreover have "days_before_year (400 * (a + 1) + 100 * 0 + 4 * 0 + 0 + 1)
       = 146097 * (a + 1) + 36524 * 0 + 1461 * 0 + 365 * 0"
      by (rule days_before_year_cycles) simp_all
    ultimately show ?thesis using dy ly a by simp
  qed
qed

lemma days_before_year_mono:
  assumes "1 \<le> y" "y \<le> y'"
  shows "days_before_year y \<le> days_before_year y'"
  using assms(2,1)
proof (induction y' rule: dec_induct)
  case base
  show ?case by simp
next
  case (step n)
  have "days_before_year (n + 1) \<ge> days_before_year n"
    using days_before_year_Suc[of n] step by simp
  then show ?case using step by simp
qed

lemma month_cases:
  assumes "1 \<le> m" "m \<le> 12"
  obtains "m = 1" | "m = 2" | "m = 3" | "m = 4" | "m = 5" | "m = 6" | "m = 7"
    | "m = 8" | "m = 9" | "m = 10" | "m = 11" | "m = (12::nat)"
  using assms by atomize_elim arith

lemma days_before_month_Suc:
  assumes "1 \<le> m" "m < 12"
  shows "days_before_month y (m + 1) = days_before_month y m + days_in_month y m"
proof -
  from assms have "1 \<le> m" "m \<le> 12" by simp_all
  then show ?thesis using assms(2)
    by (cases m rule: month_cases)
       (simp_all add: days_before_month_def days_in_month_def DAYS_BEFORE_MONTH_def DAYS_IN_MONTH_def)
qed

lemma days_before_month_mono:
  assumes "1 \<le> m" "m \<le> m'" "m' \<le> 12"
  shows "days_before_month y m \<le> days_before_month y m'"
  using assms(2,1,3)
proof (induction m' rule: dec_induct)
  case base
  show ?case by simp
next
  case (step n)
  then show ?case using days_before_month_Suc[of n y] by simp
qed

lemma days_in_year:
  "days_before_month y 12 + days_in_month y 12 = (if is_leap y then 366 else 365)"
  by (simp add: days_before_month_def days_in_month_def DAYS_BEFORE_MONTH_def DAYS_IN_MONTH_def)

lemma ymd2ord_less_month:
  assumes "valid_date y m d" "valid_date y m' d'" "m < m'"
  shows "ymd2ord y m d < ymd2ord y m' d'"
proof -
  have "days_before_month y m + d \<le> days_before_month y (m + 1)"
    using assms days_before_month_Suc[of m y] by (simp add: valid_date_def)
  also have "\<dots> \<le> days_before_month y m'"
    using assms by (intro days_before_month_mono) (simp_all add: valid_date_def)
  also have "\<dots> < days_before_month y m' + d'" using assms(2) by (simp add: valid_date_def)
  finally show ?thesis by (simp add: ymd2ord_def)
qed

lemma ymd2ord_less_year:
  assumes "valid_date y m d" "valid_date y' m' d'" "y < y'"
  shows "ymd2ord y m d < ymd2ord y' m' d'"
proof -
  have "days_before_month y m + d \<le> days_before_month y 12 + days_in_month y 12"
  proof (cases "m = 12")
    case True
    then show ?thesis using assms(1) by (simp add: valid_date_def)
  next
    case False
    have "days_before_month y m + d \<le> days_before_month y (m + 1)"
      using assms(1) False days_before_month_Suc[of m y] by (simp add: valid_date_def)
    also have "\<dots> \<le> days_before_month y 12"
      using assms(1) False by (intro days_before_month_mono) (simp_all add: valid_date_def)
    finally show ?thesis by simp
  qed
  then have "ymd2ord y m d \<le> days_before_year (y + 1)"
    using days_before_year_Suc[of y] days_in_year[of y] assms(1)
    by (simp add: ymd2ord_def valid_date_def)
  also have "\<dots> \<le> days_before_year y'"
    using assms by (intro days_before_year_mono) simp_all
  also have "\<dots> < ymd2ord y' m' d'" using assms(2) by (simp add: ymd2ord_def valid_date_def)
  finally show ?thesis .
qed

lemma ymd2ord_less:
  assumes "valid_date y m d" "valid_date y' m' d'"
  shows "(ymd2ord y m d < ymd2ord y' m' d') = ([y, m, d] < [y', m', d'])"
proof -
  have fwd: "ymd2ord y m d < ymd2ord y' m' d'"
    if "valid_date y m d" "valid_date y' m' d'" "[y, m, d] < [y', m', d']" for y m d y' m' d'
  proof -
    from that(3) consider "y < y'" | "y = y'" "m < m'" | "y = y'" "m = m'" "d < d'"
      by atomize_elim auto
    then show ?thesis
    proof cases
      case 1 then show ?thesis using that ymd2ord_less_year by blast
    next
      case 2 then show ?thesis using that ymd2ord_less_month by blast
    next
      case 3 then show ?thesis by (simp add: ymd2ord_def)
    qed
  qed
  show ?thesis
  proof
    assume l: "ymd2ord y m d < ymd2ord y' m' d'"
    show "[y, m, d] < [y', m', d']"
    proof (rule ccontr)
      assume "\<not> [y, m, d] < [y', m', d']"
      then have "[y, m, d] = [y', m', d'] \<or> [y', m', d'] < [y, m, d]" using not_less_iff_gr_or_eq by blast
      then show False
      proof
        assume "[y, m, d] = [y', m', d']" then show False using l by simp
      next
        assume "[y', m', d'] < [y, m, d]"
        from fwd[OF assms(2,1) this] l show False by simp
      qed
    qed
  next
    assume "[y, m, d] < [y', m', d']"
    then show "ymd2ord y m d < ymd2ord y' m' d'" using fwd assms by blast
  qed
qed

lemma not_less_both:
  fixes x y :: "'a::linorder"
  shows "(\<not> x < y \<and> \<not> y < x) = (x = y)"
  by auto

lemma radix_less:
  fixes q q' r r' B :: nat
  assumes "r < B" "r' < B"
  shows "(q * B + r < q' * B + r') = (q < q' \<or> (q = q' \<and> r < r'))"
proof -
  have step: "q * B + r < q' * B + r'" if "q < q'" "r < B" for q q' r r' :: nat
  proof -
    from that have "Suc q * B \<le> q' * B" by (intro mult_le_mono1) simp
    moreover have "q * B + r < Suc q * B" using that by simp
    ultimately show ?thesis by linarith
  qed
  consider "q < q'" | "q = q'" | "q' < q" by atomize_elim arith
  then show ?thesis
  proof cases
    case 1 then show ?thesis using step assms by simp
  next
    case 2 then show ?thesis by simp
  next
    case 3 then show ?thesis using step[OF 3 assms(2), of r] by simp
  qed
qed

lemma radix_eq:
  fixes q q' r r' B :: nat
  assumes "r < B" "r' < B"
  shows "(q * B + r = q' * B + r') = (q = q' \<and> r = r')"
  using radix_less[OF assms, of q q'] radix_less[OF assms(2,1), of q' q] by auto

lemma ymd2ord_eq:
  assumes "valid_date y m d" "valid_date y' m' d'"
  shows "(ymd2ord y m d = ymd2ord y' m' d') = ([y, m, d] = [y', m', d'])"
proof -
  have "(ymd2ord y m d = ymd2ord y' m' d') =
        (\<not> ymd2ord y m d < ymd2ord y' m' d' \<and> \<not> ymd2ord y' m' d' < ymd2ord y m d)"
    by auto
  also have "\<dots> = (\<not> [y, m, d] < [y', m', d'] \<and> \<not> [y', m', d'] < [y, m, d])"
    using ymd2ord_less[OF assms] ymd2ord_less[OF assms(2,1)] by simp
  also have "\<dots> = ([y, m, d] = [y', m', d'])"
    by (rule not_less_both)
  finally show ?thesis .
qed

lemma to_us_to_s: "to_us t = to_s t * 1000000 + microsecond t"
  by (simp add: to_us_def to_s_def)

lemma to_s_less:
  assumes "valid_datetime a" "valid_datetime b"
  shows "(to_s a < to_s b) =
         ([year a, month a, day a, hour a, minute a, second a]
            < [year b, month b, day b, hour b, minute b, second b])"
proof -
  have va: "valid_date (year a) (month a) (day a)" "hour a < 24" "minute a < 60" "second a < 60"
    using assms(1) by (simp_all add: valid_datetime_def)
  have vb: "valid_date (year b) (month b) (day b)" "hour b < 24" "minute b < 60" "second b < 60"
    using assms(2) by (simp_all add: valid_datetime_def)
  define oa where "oa = ymd2ord (year a) (month a) (day a)"
  define ob where "ob = ymd2ord (year b) (month b) (day b)"
  have o: "(oa < ob) = ([year a, month a, day a] < [year b, month b, day b])"
    "(oa = ob) = ([year a, month a, day a] = [year b, month b, day b])"
    unfolding oa_def ob_def by (rule ymd2ord_less[OF va(1) vb(1)], rule ymd2ord_eq[OF va(1) vb(1)])
  have h: "(oa * 24 + hour a < ob * 24 + hour b) = (oa < ob \<or> (oa = ob \<and> hour a < hour b))"
    "(oa * 24 + hour a = ob * 24 + hour b) = (oa = ob \<and> hour a = hour b)"
    by (rule radix_less[OF va(2) vb(2)], rule radix_eq[OF va(2) vb(2)])
  define ha where "ha = oa * 24 + hour a"
  define hb where "hb = ob * 24 + hour b"
  have m: "(ha * 60 + minute a < hb * 60 + minute b) = (ha < hb \<or> (ha = hb \<and> minute a < minute b))"
    "(ha * 60 + minute a = hb * 60 + minute b) = (ha = hb \<and> minute a = minute b)"
    by (rule radix_less[OF va(3) vb(3)], rule radix_eq[OF va(3) vb(3)])
  define ma where "ma = ha * 60 + minute a"
  define mb where "mb = hb * 60 + minute b"
  have s: "(ma * 60 + second a < mb * 60 + second b) = (ma < mb \<or> (ma = mb \<and> second a < second b))"
    by (rule radix_less[OF va(4) vb(4)])
  have "(to_s a < to_s b) = (ma * 60 + second a < mb * 60 + second b)"
    by (simp only: to_s_def ma_def mb_def ha_def hb_def oa_def ob_def)
  also have "\<dots> = (ma < mb \<or> (ma = mb \<and> second a < second b))" by (rule s)
  also have "\<dots> = ([year a, month a, day a, hour a, minute a, second a]
            < [year b, month b, day b, hour b, minute b, second b])"
    using o h m unfolding ma_def mb_def ha_def hb_def by simp blast
  finally show ?thesis .
qed

lemma to_s_eq:
  assumes "valid_datetime a" "valid_datetime b"
  shows "(to_s a = to_s b) =
         ([year a, month a, day a, hour a, minute a, second a]
            = [year b, month b, day b, hour b, minute b, second b])"
proof -
  have "(to_s a = to_s b) = (\<not> to_s a < to_s b \<and> \<not> to_s b < to_s a)" by auto
  also have "\<dots> = ([year a, month a, day a, hour a, minute a, second a]
            = [year b, month b, day b, hour b, minute b, second b])"
    unfolding to_s_less[OF assms] to_s_less[OF assms(2,1)]
    by (rule not_less_both)
  finally show ?thesis .
qed

lemma to_us_less:
  assumes "valid_datetime a" "valid_datetime b"
  shows "(to_us a < to_us b) = dt_lt a b"
proof -
  have u: "microsecond a < 1000000" "microsecond b < 1000000"
    using assms by (simp_all add: valid_datetime_def)
  show ?thesis
    unfolding to_us_to_s dt_lt_def dt_fields_def radix_less[OF u]
    using to_s_less[OF assms] to_s_eq[OF assms]
    by simp blast
qed

lemma to_us_le:
  assumes "valid_datetime a" "valid_datetime b"
  shows "(to_us a \<le> to_us b) = dt_le a b"
proof -
  have "(to_us a \<le> to_us b) = (\<not> to_us b < to_us a)" by auto
  also have "\<dots> = dt_le a b"
    unfolding to_us_less[OF assms(2,1)] dt_lt_def dt_le_def by (simp add: not_less)
  finally show ?thesis .
qed

lemma days_before_year_10000: "days_before_year 10000 = 3652059"
  by (simp add: days_before_year_def)

lemma ord2ymd_valid:
  assumes "1 \<le> n"
  shows "valid_date (fst (ord2ymd n)) (fst (snd (ord2ymd n))) (snd (snd (ord2ymd n)))"
    and "ymd2ord (fst (ord2ymd n)) (fst (snd (ord2ymd n))) (snd (snd (ord2ymd n))) = n"
  using ord2ymd_correct[OF assms] by (auto simp: valid_date_def split: prod.splits)

lemma ord2ymd_year_le:
  assumes "1 \<le> n" "n \<le> MAXORDINAL"
  shows "fst (ord2ymd n) \<le> 9999"
proof (rule ccontr)
  assume "\<not> fst (ord2ymd n) \<le> 9999"
  then have "10000 \<le> fst (ord2ymd n)" by simp
  then have "days_before_year 10000 \<le> days_before_year (fst (ord2ymd n))"
    by (intro days_before_year_mono) simp_all
  moreover have "days_before_year (fst (ord2ymd n)) < n"
    using ord2ymd_valid[OF assms(1)] by (simp add: ymd2ord_def valid_date_def)
  ultimately show False using assms(2) by (simp add: days_before_year_10000 MAXORDINAL_def)
qed

lemma of_us_correct:
  assumes "86400000000 \<le> u" "u div 86400000000 \<le> MAXORDINAL"
  shows "valid_datetime (of_us u)" and "to_us (of_us u) = u"
proof -
  define days where "days = u div 86400000000"
  define r where "r = u mod 86400000000"
  define secs where "secs = r div 1000000"
  define us where "us = r mod 1000000"
  define h where "h = secs div 3600"
  define r2 where "r2 = secs mod 3600"
  define mi where "mi = r2 div 60"
  define s where "s = r2 mod 60"
  have d1: "1 \<le> days" using assms(1) unfolding days_def by (simp add: div_greater_zero_iff Suc_le_eq)
  have e: "u = days * 86400000000 + r" "r < 86400000000" by (simp_all add: days_def r_def)
  have e2: "r = secs * 1000000 + us" "us < 1000000" by (simp_all add: secs_def us_def)
  have e3: "secs = h * 3600 + r2" "r2 < 3600" by (simp_all add: h_def r2_def)
  have e4: "r2 = mi * 60 + s" "s < 60" by (simp_all add: mi_def s_def)
  have b: "h < 24" "mi < 60" using e e2 e3 e4 by arith+
  have s60: "secs mod 60 = s"
    unfolding s_def r2_def by (simp add: mod_mod_cancel)
  obtain y m d where o: "ord2ymd days = (y, m, d)" by (cases "ord2ymd days") auto
  have f: "of_us u = \<lparr>year = y, month = m, day = d, hour = h, minute = mi, second = s,
      microsecond = us\<rparr>"
    unfolding of_us_def Let_def days_def[symmetric] r_def[symmetric] secs_def[symmetric]
      us_def[symmetric] h_def[symmetric] r2_def[symmetric] mi_def[symmetric] s60 o
    by simp
  have v: "valid_date y m d" "ymd2ord y m d = days"
    using ord2ymd_valid[OF d1] o by simp_all
  have y: "y \<le> 9999" using ord2ymd_year_le[OF d1] assms(2) o by (simp add: days_def)
  show "valid_datetime (of_us u)"
    unfolding f valid_datetime_def using v y b e2 e4 by simp
  show "to_us (of_us u) = u"
    unfolding f to_us_def using v(2) e(1) e2(1) e3(1) e4(1) by simp
qed

lemma dt_add_correct:
  assumes "dt_add t delta = Inr t'"
  shows "valid_datetime t'" and "int (to_us t') = int (to_us t) + delta"
proof -
  define u where "u = int (to_us t) + delta"
  from assms have r: "0 < u div 86400000000" "u div 86400000000 \<le> int MAXORDINAL"
    "t' = of_us (nat u)"
    by (auto simp: dt_add_def Let_def u_def split: if_splits)
  have u0: "0 \<le> u" using r(1) by (simp add: pos_imp_zdiv_pos_iff)
  have g: "86400000000 \<le> nat u" using r(1) u0 by (simp add: pos_imp_zdiv_pos_iff)
  have "int (nat u div 86400000000) = u div 86400000000"
    using u0 by (simp add: zdiv_int)
  then have l: "nat u div 86400000000 \<le> MAXORDINAL" using r(2) by linarith
  show "valid_datetime t'" unfolding r(3) by (rule of_us_correct(1)[OF g l])
  show "int (to_us t') = int (to_us t) + delta"
    unfolding r(3) of_us_correct(2)[OF g l] using u0 by (simp add: u_def)
qed

declare str_nat.simps [simp del]

lemma digit_char_less: "a < 10 \<Longrightarrow> b < 10 \<Longrightarrow> (digit_char a < digit_char b) = (a < b)"
  by (simp add: digit_char_def less_char_def)

lemma digit_char_eq: "a < 10 \<Longrightarrow> b < 10 \<Longrightarrow> (digit_char a = digit_char b) = (a = b)"
  using digit_char_less[of a b] digit_char_less[of b a] by (metis less_irrefl linorder_neqE_nat)

lemma decimal_less:
  fixes n n' :: nat
  shows "(n < n') = (n div 10 < n' div 10 \<or> (n div 10 = n' div 10 \<and> n mod 10 < n' mod 10))"
  using radix_less[of "n mod 10" 10 "n' mod 10" "n div 10" "n' div 10"] by simp

lemma decimal_eq:
  fixes n n' :: nat
  shows "(n = n') = (n div 10 = n' div 10 \<and> n mod 10 = n' mod 10)"
  using radix_eq[of "n mod 10" 10 "n' mod 10" "n div 10" "n' div 10"] by simp

lemma pad2_less:
  assumes "n < 100" "n' < 100"
  shows "(pad2 n < pad2 n') = (n < n')"
proof -
  have "n div 10 < 10" "n' div 10 < 10" using assms by simp_all
  then show ?thesis
    unfolding pad2_def decimal_less[of n n']
    by (simp add: digit_char_less digit_char_eq)
qed

lemma pad2_eq:
  assumes "n < 100" "n' < 100"
  shows "(pad2 n = pad2 n') = (n = n')"
proof -
  have "n div 10 < 10" "n' div 10 < 10" using assms by simp_all
  then show ?thesis
    unfolding pad2_def decimal_eq[of n n']
    by (simp add: digit_char_eq)
qed

lemma str_nat_small: "n < 10 \<Longrightarrow> str_nat n = [digit_char n]"
  by (subst str_nat.simps) simp

lemma str_nat_step: "10 \<le> n \<Longrightarrow> str_nat n = str_nat (n div 10) @ [digit_char (n mod 10)]"
  by (subst str_nat.simps) simp

lemma str_nat_four_digits:
  assumes "1000 \<le> y" "y \<le> 9999"
  shows "str_nat y = pad2 (y div 100) @ pad2 (y mod 100)"
proof -
  have 1: "str_nat y = str_nat (y div 10) @ [digit_char (y mod 10)]"
    using assms by (intro str_nat_step) simp
  have 2: "str_nat (y div 10) = str_nat (y div 100) @ [digit_char (y div 10 mod 10)]"
    using assms str_nat_step[of "y div 10"] by (simp add: div_mult2_eq[symmetric])
  have 3: "str_nat (y div 100) = str_nat (y div 1000) @ [digit_char (y div 100 mod 10)]"
    using assms str_nat_step[of "y div 100"] by (simp add: div_mult2_eq[symmetric])
  have 4: "str_nat (y div 1000) = [digit_char (y div 1000)]"
    using assms by (intro str_nat_small) simp
  have a: "y div 100 div 10 mod 10 = y div 1000"
    using assms by (simp add: div_mult2_eq[symmetric])
  have "y mod 100 = 10 * (y div 10 mod 10) + y mod 10"
    using mod_mult2_eq[of y 10 10] by simp
  then have "y mod 100 div 10 = y div 10 mod 10" by simp
  then have b: "y mod 100 div 10 mod 10 = y div 10 mod 10" by simp
  have c: "y mod 100 mod 10 = y mod 10" by (simp add: mod_mod_cancel)
  show ?thesis unfolding 1 2 3 4 pad2_def a b c by simp
qed

lemma lex_append_less:
  fixes xs ys us vs :: "'a::linorder list"
  assumes "length xs = length ys"
  shows "(xs @ us < ys @ vs) = (xs < ys \<or> (xs = ys \<and> us < vs))"
  using assms by (induction xs ys rule: list_induct2) auto

lemma length_pad2: "length (pad2 n) = 2"
  by (simp add: pad2_def)

lemma pad2_sep_less:
  assumes "n < 100" "n' < 100"
  shows "(pad2 n @ c # us < pad2 n' @ c # vs) = (n < n' \<or> (n = n' \<and> us < vs))"
  using lex_append_less[of "pad2 n" "pad2 n'" "c # us" "c # vs"]
  by (simp add: length_pad2 pad2_less[OF assms] pad2_eq[OF assms])

lemma year_sep_less:
  assumes "1000 \<le> y" "y \<le> 9999" "1000 \<le> y'" "y' \<le> 9999"
  shows "(str_nat y @ c # us < str_nat y' @ c # vs) = (y < y' \<or> (y = y' \<and> us < vs))"
proof -
  have b: "y div 100 < 100" "y' div 100 < 100" "y mod 100 < 100" "y' mod 100 < 100"
    using assms by simp_all
  have yl: "(y < y') = (y div 100 < y' div 100 \<or> (y div 100 = y' div 100 \<and> y mod 100 < y' mod 100))"
    using radix_less[OF b(3,4), of "y div 100" "y' div 100"] by simp
  have ye: "(y = y') = (y div 100 = y' div 100 \<and> y mod 100 = y' mod 100)"
    using radix_eq[OF b(3,4), of "y div 100" "y' div 100"] by simp
  have "(str_nat y @ c # us < str_nat y' @ c # vs) =
        (pad2 (y div 100) @ pad2 (y mod 100) @ c # us < pad2 (y' div 100) @ pad2 (y' mod 100) @ c # vs)"
    by (simp add: str_nat_four_digits assms)
  also have "\<dots> = (y div 100 < y' div 100 \<or>
      (y div 100 = y' div 100 \<and> (y mod 100 < y' mod 100 \<or> (y mod 100 = y' mod 100 \<and> us < vs))))"
    using lex_append_less[of "pad2 (y div 100)" "pad2 (y' div 100)"
        "pad2 (y mod 100) @ c # us" "pad2 (y' mod 100) @ c # vs"]
    by (simp add: length_pad2 pad2_less[OF b(1,2)] pad2_eq[OF b(1,2)] pad2_sep_less[OF b(3,4)])
  also have "\<dots> = (y < y' \<or> (y = y' \<and> us < vs))"
    unfolding yl ye by blast
  finally show ?thesis .
qed

lemma days_in_month_le:
  assumes "1 \<le> m" "m \<le> 12"
  shows "days_in_month y m \<le> 31"
  using assms by (cases m rule: month_cases) (simp_all add: days_in_month_def DAYS_IN_MONTH_def)

lemma strftime_less:
  assumes "valid_datetime a" "valid_datetime b" "1000 \<le> year a" "1000 \<le> year b"
  shows "(strftime a < strftime b) =
         ([year a, month a, day a, hour a, minute a, second a]
            < [year b, month b, day b, hour b, minute b, second b])"
proof -
  have va: "year a \<le> 9999" "month a < 100" "day a < 100" "hour a < 100" "minute a < 100"
    "second a < 100"
    using assms(1) days_in_month_le[of "month a" "year a"]
    by (simp_all add: valid_datetime_def valid_date_def)
  have vb: "year b \<le> 9999" "month b < 100" "day b < 100" "hour b < 100" "minute b < 100"
    "second b < 100"
    using assms(2) days_in_month_le[of "month b" "year b"]
    by (simp_all add: valid_datetime_def valid_date_def)
  show ?thesis
    unfolding strftime_def
    by (simp add: year_sep_less[OF assms(3) va(1) assms(4) vb(1)]
        pad2_sep_less[OF va(2) vb(2)] pad2_sep_less[OF va(3) vb(3)]
        pad2_sep_less[OF va(4) vb(4)] pad2_sep_less[OF va(5) vb(5)]
        pad2_less[OF va(6) vb(6)])
qed

lemma strftime_le_to_s:
  assumes "valid_datetime a" "valid_datetime b" "1000 \<le> year a" "1000 \<le> year b"
  shows "(strftime a \<le> strftime b) = (to_s a \<le> to_s b)"
proof -
  have "(strftime a \<le> strftime b) = (\<not> strftime b < strftime a)" by auto
  also have "\<dots> = (\<not> to_s b < to_s a)"
    unfolding strftime_less[OF assms(2,1,4,3)] to_s_less[OF assms(2,1)] ..
  also have "\<dots> = (to_s a \<le> to_s b)" by auto
  finally show ?thesis .
qed

lemma strftime_less_to_s:
  assumes "valid_datetime a" "valid_datetime b" "1000 \<le> year a" "1000 \<le> year b"
  shows "(strftime a < strftime b) = (to_s a < to_s b)"
  unfolding strftime_less[OF assms] to_s_less[OF assms(1,2)] ..

section \<open>Order of rendered timestamps\<close>

lemma digit_char_simps:
  "digit_char 0 = CHR ''0''" "digit_char 1 = CHR ''1''" "digit_char 2 = CHR ''2''"
  "digit_char 3 = CHR ''3''" "digit_char 4 = CHR ''4''" "digit_char 5 = CHR ''5''"
  "digit_char 6 = CHR ''6''" "digit_char 7 = CHR ''7''" "digit_char 8 = CHR ''8''"
  "digit_char 9 = CHR ''9''" "digit_char (Suc 0) = CHR ''1''"
  by code_simp+

lemma to_s_le_of_to_us_le:
  assumes "microsecond a < 1000000" "microsecond b < 1000000" "to_us a \<le> to_us b"
  shows "to_s a \<le> to_s b"
proof (rule ccontr)
  assume "\<not> to_s a \<le> to_s b"
  then have "to_s b < to_s a" by simp
  then have "to_us b < to_us a"
    unfolding to_us_to_s using radix_less[OF assms(2,1), of "to_s b" "to_s a"] by simp
  then show False using assms(3) by simp
qed

lemma to_us_le_whole:
  assumes "microsecond a = 0" "microsecond b < 1000000"
  shows "(to_us a \<le> to_us b) = (to_s a \<le> to_s b)"
proof -
  have a0: "microsecond a < 1000000" using assms(1) by simp
  have "(to_us b < to_us a) = (to_s b < to_s a)"
    unfolding to_us_to_s radix_less[OF assms(2) a0] using assms(1) by simp
  then show ?thesis by (simp add: not_less[symmetric])
qed

lemma valid_whole_second: "valid_datetime t \<Longrightarrow> valid_datetime (whole_second t)"
  by (simp add: valid_datetime_def whole_second_def)

lemma to_s_whole_second: "to_s (whole_second t) = to_s t"
  by (simp add: to_s_def whole_second_def)

lemma dt_le_whole_second:
  assumes "valid_datetime a" "valid_datetime b"
  shows "dt_le (whole_second a) (whole_second b) = (to_s a \<le> to_s b)"
proof -
  have "dt_le (whole_second a) (whole_second b)
        = (to_us (whole_second a) \<le> to_us (whole_second b))"
    using to_us_le[OF valid_whole_second[OF assms(1)] valid_whole_second[OF assms(2)]] by simp
  also have "\<dots> = (to_s (whole_second a) \<le> to_s (whole_second b))"
    by (rule to_us_le_whole) (simp_all add: whole_second_def)
  finally show ?thesis by (simp add: to_s_whole_second)
qed

lemmas eval_time = valid_datetime_def valid_date_def days_in_month_def DAYS_IN_MONTH_def
  is_leap_def strftime_def pad2_def str_nat.simps digit_char_simps dt_le_def dt_lt_def
  dt_fields_def whole_second_def

lemma store_log [simp]: "store (log e st) = store st"
  by (simp add: log_def)

lemma trace_log [simp]: "trace (log e st) = trace st @ [e]"
  by (simp add: log_def)

lemma now_eq: "now en st = (clock en (length (trace st)), log (ClockRead (clock en (length (trace st)))) st)"
  by (simp add: now_def Let_def)

lemma matches_subscription_id [simp]:
  "matches [(''subscription_id'', Some sid)] r = (subscription_id r = sid)"
  by (simp add: matches_def getattr_def)

lemma matches_domain [simp]:
  "matches [(''domain'', Some d)] r = (domain r = d)"
  by (simp add: matches_def getattr_def)

lemma filters_ok_subscription_id [simp]: "filters_ok [(''subscription_id'', v)]"
  by (simp add: filters_ok_def string_columns_def)

lemma filters_ok_domain [simp]: "filters_ok [(''domain'', v)]"
  by (simp add: filters_ok_def string_columns_def)

lemma set_all_renewal:
  "set_all [(''expires'', Some ne), (''last_updated'', Some lu), (''oauth_token'', Some tok),
            (''refresh_token'', rt)] r =
     (case rt of None \<Rightarrow> None
      | Some x \<Rightarrow> Some (r\<lparr>expires := ne, last_updated := Some lu, oauth_token := tok,
                           refresh_token := x\<rparr>))"
  by (simp add: setattr_def columns_def string_columns_def split: option.splits)

lemma update_rows_Some:
  "update_rows f d rows = Some rows' \<Longrightarrow>
   list_all2 (\<lambda>r r'. (matches f r \<and> set_all d r = Some r') \<or> (\<not> matches f r \<and> r' = r))
     rows rows'"
proof (induction rows arbitrary: rows')
  case Nil
  then show ?case by simp
next
  case (Cons r rows)
  then show ?case by (cases "matches f r") (auto split: option.splits)
qed

lemma update_rows_map:
  assumes "\<And>r. matches f r \<Longrightarrow> set_all d r = Some (g r)"
  shows "update_rows f d rows = Some (map (\<lambda>r. if matches f r then g r else r) rows)"
  using assms by (induction rows) auto

lemma update_rows_None:
  assumes "\<And>r. matches f r \<Longrightarrow> set_all d r = None" "filter (matches f) rows \<noteq> []"
  shows "update_rows f d rows = None"
  using assms(2)
proof (induction rows)
  case Nil
  then show ?case by simp
next
  case (Cons r rows)
  show ?case
  proof (cases "matches f r")
    case True
    then show ?thesis using assms(1) by simp
  next
    case False
    then have "update_rows f d rows = None" using Cons by simp
    then show ?thesis using False by simp
  qed
qed

lemma new_instance_renewal:
  "new_instance i c ([(''subscription_id'', Some sid)] @
      [(''expires'', Some ne), (''last_updated'', Some lu), (''oauth_token'', Some tok),
       (''refresh_token'', rt)]) = None"
  by (simp add: new_instance_def lookup_def)

lemma matches_subscription_id_fun:
  "matches [(''subscription_id'', Some sid)] = (\<lambda>r. subscription_id r = sid)"
  by (rule ext) simp

lemma matches_domain_fun: "matches [(''domain'', Some d)] = (\<lambda>r. domain r = d)"
  by (rule ext) simp

text \<open>The renewal's write to one subscription: the whole update or nothing.\<close>

lemma update_table_renewal:
  assumes "update_table en [(''subscription_id'', Some sid)]
             [(''expires'', Some ne), (''last_updated'', Some lu), (''oauth_token'', Some tok),
              (''refresh_token'', rt)] st = (res, st')"
  shows "(res = Inr () \<and> (\<exists>x. rt = Some x \<and>
            store st' = map (\<lambda>r. if subscription_id r = sid
                                   then r\<lparr>expires := ne, last_updated := Some lu,
                                          oauth_token := tok, refresh_token := x\<rparr>
                                   else r) (store st)) \<and>
          filter (\<lambda>r. subscription_id r = sid) (store st) \<noteq> [] \<and>
          trace st' = trace st @ [DbCommit (store st')])
         \<or> ((\<exists>e. res = Inl e) \<and> store st' = store st \<and> trace st' = trace st @ [DbRollback])"
proof (cases "db_fails en (length (trace st))")
  case True
  then show ?thesis using assms by (auto simp: update_table_def Let_def)
next
  case up: False
  show ?thesis
  proof (cases "filter (\<lambda>r. subscription_id r = sid) (store st) = []")
    case True
    then show ?thesis using assms up new_instance_renewal[of _ _ sid ne lu tok rt]
      by (auto simp: update_table_def Let_def columns_def string_columns_def
          matches_subscription_id_fun)
  next
    case ne: False
    show ?thesis
    proof (cases rt)
      case None
      have "update_rows [(''subscription_id'', Some sid)]
             [(''expires'', Some ne), (''last_updated'', Some lu), (''oauth_token'', Some tok),
              (''refresh_token'', rt)] (store st) = None"
        by (rule update_rows_None)
           (use ne None in \<open>simp_all add: set_all_renewal matches_subscription_id_fun
              del: set_all.simps\<close>)
      then show ?thesis using assms up ne
        by (auto simp: update_table_def Let_def matches_subscription_id_fun)
    next
      case (Some x)
      have "update_rows [(''subscription_id'', Some sid)]
             [(''expires'', Some ne), (''last_updated'', Some lu), (''oauth_token'', Some tok),
              (''refresh_token'', rt)] (store st)
            = Some (map (\<lambda>r. if matches [(''subscription_id'', Some sid)] r
                                   then r\<lparr>expires := ne, last_updated := Some lu,
                                          oauth_token := tok, refresh_token := x\<rparr>
                                   else r) (store st))"
        by (rule update_rows_map) (simp add: set_all_renewal Some del: set_all.simps)
      then show ?thesis using assms up ne Some
        by (auto simp: update_table_def Let_def matches_subscription_id_fun split: if_splits)
    qed
  qed
qed

lemma update_subscription_eq:
  "update_subscription en ne sid tok d st =
     (if put_subscription en (length (trace st)) ne sid tok d = 202 then Inr ()
      else Inl (Exception ''Failed to update subscription''),
      log (SubscriptionUpdate ne sid tok d) st)"
  by (simp add: update_subscription_def Let_def)

lemma renewed_simps:
  "renewed ne tok x r r' \<Longrightarrow> subscription_id r' = subscription_id r"
  "renewed ne tok x r r' \<Longrightarrow> domain r' = domain r"
  "renewed ne tok x r r' \<Longrightarrow> expires r' = ne"
  "renewed ne tok x r r' \<Longrightarrow> oauth_token r' = tok"
  "renewed ne tok x r r' \<Longrightarrow> refresh_token r' = x"
  by (auto simp: renewed_def)

lemma renewed_trans:
  "renewed ne tok x r r' \<Longrightarrow> renewed ne tok x r' r'' \<Longrightarrow> renewed ne tok x r r''"
  by (auto simp: renewed_def)

lemma renewal_step_refl: "renewal_step ne tok rt ids r r"
  by (simp add: renewal_step_def)

lemma renewal_step_trans:
  assumes "renewal_step ne tok rt ids r r'" "renewal_step ne tok rt ids' r' r''"
  shows "renewal_step ne tok rt (ids \<union> ids') r r''"
  using assms renewed_trans[of ne tok _ r r' r''] renewed_simps(1)[of ne tok _ r r']
  unfolding renewal_step_def by (elim disjE conjE exE) auto

lemma list_all2_renewal_step_refl: "list_all2 (renewal_step ne tok rt ids) rows rows"
  by (simp add: list_all2_same renewal_step_refl)

lemma list_all2_renewal_step_trans:
  assumes "list_all2 (renewal_step ne tok rt ids) xs ys"
    "list_all2 (renewal_step ne tok rt ids') ys zs"
  shows "list_all2 (renewal_step ne tok rt (ids \<union> ids')) xs zs"
  using assms(1,2)
  by (rule list_all2_trans[rotated]) (rule renewal_step_trans)

lemma list_all2_renewal_step_map:
  "list_all2 (renewal_step ne tok (Some x) {sid}) rows
     (map (\<lambda>r. if subscription_id r = sid
                then r\<lparr>expires := ne, last_updated := Some lu, oauth_token := tok,
                       refresh_token := x\<rparr>
                else r) rows)"
  by (auto simp: list_all2_map2 list_all2_same renewal_step_def renewed_def)

lemma commits_append [simp]: "commits (xs @ ys) = commits xs @ commits ys"
  by (induction xs rule: commits.induct) simp_all

text \<open>
  The loop over the subscriptions of a domain: it pushes a prefix of them, in order, and
  every state of the table it commits differs from the one at its start only by whole
  renewals of pushed subscriptions.
\<close>

lemma update_each_run:
  assumes "update_each en ne tok rt subs st = (res, st')"
  shows "\<exists>evs k. trace st' = trace st @ evs \<and> k \<le> length subs \<and>
           filter is_remote_call evs =
             map (\<lambda>s. SubscriptionUpdate ne (subscription_id s) tok (domain s)) (take k subs) \<and>
           (res = Inr () \<longrightarrow> k = length subs) \<and>
           list_all (\<lambda>rows. list_all2 (renewal_step ne tok rt (subscription_id ` set (take k subs)))
                               (store st) rows)
             (store st' # commits evs)"
  using assms
proof (induction subs arbitrary: st)
  case Nil
  then show ?case by (auto simp: list_all2_renewal_step_refl)
next
  case (Cons s rest)
  let ?push = "SubscriptionUpdate ne (subscription_id s) tok (domain s)"
  let ?st1 = "log ?push st"
  let ?t = "clock en (length (trace ?st1))"
  let ?st2 = "log (ClockRead ?t) ?st1"
  show ?case
  proof (cases "put_subscription en (length (trace st)) ne (subscription_id s) tok (domain s) = 202")
    case False
    then have "res = Inl (Exception ''Failed to update subscription'')" "st' = ?st1"
      using Cons.prems by (simp_all add: update_subscription_eq)
    then show ?thesis
      by (intro exI[of _ "[?push]"] exI[of _ 1]) (simp add: list_all2_renewal_step_refl)
  next
    case True
    obtain r3 st3 where ut: "update_table en [(''subscription_id'', Some (subscription_id s))]
             [(''expires'', Some ne), (''last_updated'', Some (strftime ?t)),
              (''oauth_token'', Some tok), (''refresh_token'', rt)] ?st2 = (r3, st3)"
      by (cases "update_table en [(''subscription_id'', Some (subscription_id s))]
             [(''expires'', Some ne), (''last_updated'', Some (strftime ?t)),
              (''oauth_token'', Some tok), (''refresh_token'', rt)] ?st2") auto
    from update_table_renewal[OF ut] show ?thesis
    proof (elim disjE conjE exE)
      fix e
      assume f: "r3 = Inl e" "store st3 = store ?st2" "trace st3 = trace ?st2 @ [DbRollback]"
      then have "res = Inl e" "st' = st3"
        using Cons.prems True ut by (simp_all add: update_subscription_eq now_eq)
      then show ?thesis using f
        by (intro exI[of _ "[?push, ClockRead ?t, DbRollback]"] exI[of _ 1])
           (simp add: list_all2_renewal_step_refl)
    next
      fix x
      assume ok: "r3 = Inr ()" "rt = Some x"
        "store st3 = map (\<lambda>r. if subscription_id r = subscription_id s
                                   then r\<lparr>expires := ne, last_updated := Some (strftime ?t),
                                          oauth_token := tok, refresh_token := x\<rparr>
                                   else r) (store ?st2)"
        "trace st3 = trace ?st2 @ [DbCommit (store st3)]"
      have rec: "update_each en ne tok rt rest st3 = (res, st')"
        using Cons.prems True ut ok(1) by (simp add: update_subscription_eq now_eq)
      from Cons.IH[OF rec] obtain evs k where ih:
        "trace st' = trace st3 @ evs" "k \<le> length rest"
        "filter is_remote_call evs =
           map (\<lambda>s. SubscriptionUpdate ne (subscription_id s) tok (domain s)) (take k rest)"
        "res = Inr () \<longrightarrow> k = length rest"
        "list_all (\<lambda>rows. list_all2 (renewal_step ne tok rt (subscription_id ` set (take k rest)))
                               (store st3) rows) (store st' # commits evs)"
        by blast
      have first: "list_all2 (renewal_step ne tok rt {subscription_id s}) (store st) (store st3)"
        unfolding ok(3) ok(2) using list_all2_renewal_step_map[of ne tok x "subscription_id s" "store st"]
        by simp
      have ids: "subscription_id ` set (take (Suc k) (s # rest))
                 = {subscription_id s} \<union> subscription_id ` set (take k rest)" by simp
      have later: "list_all2 (renewal_step ne tok rt (subscription_id ` set (take (Suc k) (s # rest))))
                     (store st) rows"
        if "list_all2 (renewal_step ne tok rt (subscription_id ` set (take k rest))) (store st3) rows"
        for rows
        unfolding ids by (rule list_all2_renewal_step_trans[OF first that])
      have here: "list_all2 (renewal_step ne tok rt (subscription_id ` set (take (Suc k) (s # rest))))
                     (store st) (store st3)"
        using later[OF list_all2_renewal_step_refl] .
      show ?thesis
        apply (intro exI[of _ "[?push, ClockRead ?t, DbCommit (store st3)] @ evs"] exI[of _ "Suc k"])
        using ih ok(4) later here
        by (simp add: list_all_iff del: take_Suc_Cons) (simp)
    qed
  qed
qed

lemma commits_iff: "rows \<in> set (commits evs) \<longleftrightarrow> DbCommit rows \<in> set evs"
  by (induction evs rule: commits.induct) auto

lemma renewal_step_row_step:
  assumes "renewal_step ne tok rt ids r r'" "subscription_id r \<in> ids \<Longrightarrow> domain r = d"
  shows "row_step ne {d} r r'"
  using assms unfolding renewal_step_def row_step_def by auto

lemma row_step_refl: "row_step ne D r r"
  by (simp add: row_step_def)

lemma row_step_mono: "row_step ne D r r' \<Longrightarrow> D \<subseteq> D' \<Longrightarrow> row_step ne D' r r'"
  unfolding row_step_def by auto

lemma row_step_trans:
  assumes "row_step ne D r r'" "row_step ne D' r' r''"
  shows "row_step ne (D \<union> D') r r''"
proof -
  have d: "domain r' = domain r" using assms(1) renewed_simps(2) unfolding row_step_def by metis
  have t: "\<exists>tok rtok. renewed ne tok rtok r r''"
    if "renewed ne tok rtok r r'" "renewed ne tok' rtok' r' r''" for tok rtok tok' rtok'
  proof -
    from that obtain lu lu' where
      "r' = r\<lparr>expires := ne, last_updated := Some lu, oauth_token := tok, refresh_token := rtok\<rparr>"
      "r'' = r'\<lparr>expires := ne, last_updated := Some lu', oauth_token := tok',
                 refresh_token := rtok'\<rparr>"
      unfolding renewed_def by blast
    then have "renewed ne tok' rtok' r r''"
      unfolding renewed_def by (intro exI[of _ lu']) simp
    then show ?thesis by blast
  qed
  from assms show ?thesis
    unfolding row_step_def using d t by (elim disjE conjE exE) auto
qed

lemma list_all2_row_step_refl: "list_all2 (row_step ne D) rows rows"
  by (simp add: list_all2_same row_step_refl)

lemma list_all2_row_step_mono:
  "list_all2 (row_step ne D) xs ys \<Longrightarrow> D \<subseteq> D' \<Longrightarrow> list_all2 (row_step ne D') xs ys"
  by (erule list_all2_mono) (rule row_step_mono)

lemma list_all2_row_step_trans:
  assumes "list_all2 (row_step ne D) xs ys" "list_all2 (row_step ne D') ys zs"
  shows "list_all2 (row_step ne (D \<union> D')) xs zs"
  using assms(1,2) by (rule list_all2_trans[rotated]) (rule row_step_trans)

lemma row_step_keys:
  assumes "list_all2 (row_step ne D) xs ys"
  shows "map subscription_id ys = map subscription_id xs" and "map domain ys = map domain xs"
proof -
  have "list_all2 (\<lambda>r r'. subscription_id r' = subscription_id r \<and> domain r' = domain r) xs ys"
    using assms by (rule list_all2_mono) (auto simp: row_step_def dest: renewed_simps)
  then show "map subscription_id ys = map subscription_id xs" "map domain ys = map domain xs"
    by (induction xs ys rule: list_all2_induct) auto
qed

lemma row_step_untouched:
  assumes "list_all2 (row_step ne D) xs ys" "d \<notin> D"
  shows "filter (\<lambda>r. domain r = d) ys = filter (\<lambda>r. domain r = d) xs"
  using assms(1)
proof (induction xs ys rule: list_all2_induct)
  case Nil
  show ?case by simp
next
  case (Cons x xs y ys)
  have ih: "filter (\<lambda>r. domain r = d) ys = filter (\<lambda>r. domain r = d) xs" by (rule Cons(3))
  have "y = x \<or> (domain x \<in> D \<and> domain y = domain x)"
    using Cons(1) by (auto simp: row_step_def dest: renewed_simps)
  then show ?case
  proof
    assume "y = x"
    then show ?thesis using ih by simp
  next
    assume a: "domain x \<in> D \<and> domain y = domain x"
    then have "domain x \<noteq> d" "domain y \<noteq> d" using assms(2) by auto
    then show ?thesis using ih by simp
  qed
qed

lemma ev_ok_mono: "ev_ok ne D rows0 e \<Longrightarrow> D \<subseteq> D' \<Longrightarrow> ev_ok ne D' rows0 e"
  by (cases e) (auto intro: list_all2_row_step_mono)

lemma ev_ok_rebase:
  assumes "ev_ok ne D' rows1 e" "list_all2 (row_step ne D) rows0 rows1"
  shows "ev_ok ne (D \<union> D') rows0 e"
  using assms by (cases e) (auto intro: list_all2_row_step_trans)

lemma datetime_eqI:
  fixes a b :: datetime
  assumes "dt_fields a = dt_fields b"
  shows "a = b"
  using assms by (cases a, cases b) (simp add: dt_fields_def)

lemma to_us_inj:
  assumes "valid_datetime a" "valid_datetime b" "to_us a = to_us b"
  shows "a = b"
proof -
  have "\<not> dt_lt a b" "\<not> dt_lt b a"
    using to_us_less[OF assms(1,2)] to_us_less[OF assms(2,1)] assms(3) by simp_all
  then have "dt_fields a = dt_fields b" unfolding dt_lt_def by (simp add: not_less_both)
  then show ?thesis by (rule datetime_eqI)
qed

lemma valid_datetime_range:
  assumes "valid_datetime t"
  shows "86400000000 \<le> to_us t" and "to_us t div 86400000000 \<le> MAXORDINAL"
proof -
  have v: "valid_date (year t) (month t) (day t)" "year t \<le> 9999" "hour t < 24" "minute t < 60"
    "second t < 60" "microsecond t < 1000000"
    using assms by (simp_all add: valid_datetime_def)
  define ord where "ord = ymd2ord (year t) (month t) (day t)"
  have ord1: "1 \<le> ord" using v(1) by (simp add: ord_def ymd2ord_def valid_date_def)
  have "\<not> ymd2ord 9999 12 31 < ord"
  proof
    assume "ymd2ord 9999 12 31 < ord"
    then have "[9999, 12, 31] < [year t, month t, day t]"
      unfolding ord_def
      using ymd2ord_less[of 9999 12 31 "year t" "month t" "day t"] v(1)
      by (simp add: valid_date_def days_in_month_def DAYS_IN_MONTH_def)
    then show False using v(1,2) days_in_month_le[of "month t" "year t"]
      by (auto simp: valid_date_def)
  qed
  moreover have "ymd2ord 9999 12 31 = 3652059"
    by (simp add: ymd2ord_def days_before_year_def days_before_month_def
        DAYS_BEFORE_MONTH_def is_leap_def)
  ultimately have ord2: "ord \<le> 3652059" by simp
  have e: "to_us t = ord * 86400000000
      + (((hour t * 60 + minute t) * 60 + second t) * 1000000 + microsecond t)"
    by (simp add: to_us_def ord_def)
  have r: "((hour t * 60 + minute t) * 60 + second t) * 1000000 + microsecond t < 86400000000"
    using v by simp
  show "86400000000 \<le> to_us t" unfolding e using ord1 by simp
  have "to_us t div 86400000000 = ord" unfolding e using r by simp
  then show "to_us t div 86400000000 \<le> MAXORDINAL" using ord2 by (simp add: MAXORDINAL_def)
qed

text \<open>The sum of a datetime and a duration, told by its place on the time line.\<close>

lemma dt_add_eqI:
  assumes "valid_datetime t'" "int (to_us t') = int (to_us t) + delta"
  shows "dt_add t delta = Inr t'"
proof -
  have u: "int (to_us t) + delta = int (to_us t')" using assms(2) by simp
  note r = valid_datetime_range[OF assms(1)]
  have "of_us (to_us t') = t'"
    by (rule to_us_inj[OF of_us_correct(1)[OF r] assms(1) of_us_correct(2)[OF r]])
  moreover have "0 < int (to_us t') div 86400000000"
    using r(1) by (simp add: pos_imp_zdiv_pos_iff)
  moreover have "int (to_us t') div 86400000000 \<le> int MAXORDINAL"
    using r(2) by (simp add: zdiv_int[symmetric])
  ultimately show ?thesis unfolding dt_add_def Let_def u by simp
qed

lemma fetch_expiring_subscriptions_eq:
  "fetch_expiring_subscriptions en cfg st =
     (case dt_add (clock en (length (trace st))) (timedelta_seconds (RENEWAL_INTERVAL cfg)) of
        Inl e \<Rightarrow> (Inl e, log (ClockRead (clock en (length (trace st)))) st)
      | Inr T \<Rightarrow>
          if db_fails en (Suc (length (trace st)))
          then (Inl session_error, log DbRollback (log (ClockRead (clock en (length (trace st)))) st))
          else (Inr (filter (\<lambda>row. expires row \<le> strftime T) (store st)),
                log DbSelect (log (ClockRead (clock en (length (trace st)))) st)))"
  by (simp add: fetch_expiring_subscriptions_def now_eq split: sum.splits)

text \<open>
  What the scan selects, read as times: when every stored \<^verbatim>\<open>expires\<close> is the rendering
  of a datetime of whole seconds, the rows returned are those whose datetime is not after
  the threshold.
\<close>

lemma scan_chronological:
  assumes "fetch_expiring_subscriptions en cfg st = (Inr rows, st')"
    and "dt_add (clock en (length (trace st))) (timedelta_seconds (RENEWAL_INTERVAL cfg)) = Inr T"
    and "1000 \<le> year T"
    and "\<forall>r \<in> set (store st). valid_datetime (e r) \<and> 1000 \<le> year (e r) \<and>
           microsecond (e r) = 0 \<and> expires r = strftime (e r)"
  shows "rows = filter (\<lambda>r. dt_le (e r) T) (store st)"
proof -
  have vT: "valid_datetime T" using dt_add_correct(1)[OF assms(2)] .
  have rows: "rows = filter (\<lambda>row. expires row \<le> strftime T) (store st)"
    using assms(1,2) by (simp add: fetch_expiring_subscriptions_eq split: if_splits)
  have "(expires r \<le> strftime T) = dt_le (e r) T" if "r \<in> set (store st)" for r
  proof -
    from that assms(4) have v: "valid_datetime (e r)" "1000 \<le> year (e r)" "microsecond (e r) = 0"
      "expires r = strftime (e r)" by auto
    have "(strftime (e r) \<le> strftime T) = (to_s (e r) \<le> to_s T)"
      by (rule strftime_le_to_s[OF v(1) vT v(2) assms(3)])
    also have "\<dots> = (to_us (e r) \<le> to_us T)"
      using to_us_le_whole[OF v(3), of T] vT by (simp add: valid_datetime_def)
    also have "\<dots> = dt_le (e r) T" by (rule to_us_le[OF v(1) vT])
    finally show ?thesis using v(4) by simp
  qed
  then show ?thesis unfolding rows by (intro filter_cong) auto
qed

lemmas eval_to_us = to_us_def ymd2ord_def days_before_year_def days_before_month_def
  DAYS_BEFORE_MONTH_def timedelta_seconds_def timedelta_days_def timedelta_minutes_def

lemma example_threshold:
  "dt_add example_now (timedelta_seconds 3600) = Inr (example_now\<lparr>hour := 1\<rparr>)"
  by (rule dt_add_eqI) (simp_all add: example_now_def eval_time eval_to_us)

lemma example_new_expiry:
  "dt_add example_now (timedelta_days 1) = Inr (example_now\<lparr>day := 2\<rparr>)"
  by (rule dt_add_eqI) (simp_all add: example_now_def eval_time eval_to_us)

lemma example_strftime:
  "strftime example_now = ''2025-01-01 00:00:00''"
  "strftime (example_now\<lparr>hour := 1\<rparr>) = ''2025-01-01 01:00:00''"
  "strftime (example_now\<lparr>hour := Suc 0\<rparr>) = ''2025-01-01 01:00:00''"
  "strftime (example_now\<lparr>day := 2\<rparr>) = ''2025-01-02 00:00:00''"
  "strftime (example_now\<lparr>minute := 30\<rparr>) = ''2025-01-01 00:30:00''"
  "strftime (example_now\<lparr>minute := 45\<rparr>) = ''2025-01-01 00:45:00''"
  "strftime (example_now\<lparr>year := 2026\<rparr>) = ''2026-01-01 00:00:00''"
  by (simp_all add: example_now_def eval_time)

lemma example_config_simps:
  "RENEWAL_INTERVAL example_config = 3600"
  "SUBSCRIPTION_DURATION example_config = timedelta_days 1"
  by (simp_all add: example_config_def load_config_def)

lemma example_env_simps:
  "clock example_env n = example_now"
  "db_fails example_env n = False"
  "str_hash example_env s = 0"
  "post_tokens_refresh example_env n tok = (200, example_token)"
  "post_tokens_password example_env n u p = (200, example_token)"
  "put_subscription example_env n e sid t d = 202"
  by (simp_all add: example_env_def)

lemma example_scan:
  "fetch_expiring_subscriptions example_env example_config example_state =
     (Inr [example_row 1 ''a.com'' ''s1'' ''2025-01-01 00:30:00'' ''r1'',
           example_row 3 ''b.com'' ''s3'' ''2025-01-01 00:45:00'' ''r3''],
      log DbSelect (log (ClockRead example_now) example_state))"
  by (simp add: fetch_expiring_subscriptions_eq example_env_simps example_config_simps
      example_threshold example_strftime example_state_def example_store_def example_row_def)

lemma read_from_table_domain:
  "read_from_table en [(''domain'', Some d)] st =
     (if db_fails en (length (trace st)) then (Inl session_error, log DbRollback st)
      else (Inr (filter (\<lambda>r. domain r = d) (store st)), log DbSelect st))"
  by (simp add: read_from_table_def matches_domain_fun)

lemma token_expiry_eq:
  "token_expiry en j st =
     (case dt_add (clock en (length (trace st)))
             (timedelta_seconds (case expires_in j of None \<Rightarrow> 0 | Some n \<Rightarrow> n)) of
        Inl e \<Rightarrow> Inl e
      | Inr x \<Rightarrow> Inr (with_expires j (strftime x)),
      log (ClockRead (clock en (length (trace st)))) st)"
  by (simp add: token_expiry_def now_eq split: sum.splits)

text \<open>One refresh: the request, then at most a reading of the clock; the table is not touched.\<close>

lemma refresh_access_token_run:
  assumes "refresh_access_token en d tok st = (res, st')"
  shows "store st' = store st"
    and "trace st' = trace st @ [RefreshRequest d tok] \<or>
         (\<exists>t. trace st' = trace st @ [RefreshRequest d tok, ClockRead t])"
    and "refresh_failed (post_tokens_refresh en (length (trace st)) tok) \<Longrightarrow>
         (\<exists>e. res = Inl e) \<or> (\<exists>td. res = Inr td \<and> \<not> truthy (access_token td))"
    and "res = Inr td \<Longrightarrow>
         fst (post_tokens_refresh en (length (trace st)) tok) = 200 \<and>
         access_token td = access_token (snd (post_tokens_refresh en (length (trace st)) tok)) \<and>
         json_refresh_token td = json_refresh_token (snd (post_tokens_refresh en (length (trace st)) tok))"
  using assms
  by (auto simp: refresh_access_token_def token_expiry_eq Let_def refresh_failed_def
      with_expires_def split: prod.splits if_splits sum.splits)

lemma failed_refresh_for_append:
  "failed_refresh_for en n0 d (xs @ ys) =
     (failed_refresh_for en n0 d xs \<or> failed_refresh_for en (n0 + length xs) d ys)"
  by (induction en n0 d xs rule: failed_refresh_for.induct) simp_all

lemma failed_refresh_for_none:
  "list_all (\<lambda>e. \<not> is_refresh_for d e) evs \<Longrightarrow> \<not> failed_refresh_for en n0 d evs"
  by (induction en n0 d evs rule: failed_refresh_for.induct) simp_all

lemma update_each_domain:
  assumes "update_each en ne tok rt subs st = (res, st')"
    and "\<forall>s \<in> set subs. domain s = d"
    and "\<forall>r \<in> set (store st). subscription_id r \<in> subscription_id ` set subs \<longrightarrow> domain r = d"
  shows "\<exists>evs. trace st' = trace st @ evs \<and> list_all (ev_ok ne {d} (store st)) evs \<and>
           (\<forall>d'. list_all (\<lambda>e. \<not> is_refresh_for d' e) evs) \<and>
           list_all2 (row_step ne {d}) (store st) (store st')"
proof -
  from update_each_run[OF assms(1)] obtain evs k where r:
    "trace st' = trace st @ evs" "k \<le> length subs"
    "filter is_remote_call evs =
       map (\<lambda>s. SubscriptionUpdate ne (subscription_id s) tok (domain s)) (take k subs)"
    "list_all (\<lambda>rows. list_all2 (renewal_step ne tok rt (subscription_id ` set (take k subs)))
                               (store st) rows) (store st' # commits evs)"
    by blast
  have ids: "subscription_id ` set (take k subs) \<subseteq> subscription_id ` set subs"
    using set_take_subset[of k subs] by blast
  have conv: "list_all2 (row_step ne {d}) (store st) rows"
    if "list_all2 (renewal_step ne tok rt (subscription_id ` set (take k subs))) (store st) rows"
    for rows
    using that
  proof (rule list.rel_mono_strong)
    fix r r'
    assume "r \<in> set (store st)" "renewal_step ne tok rt (subscription_id ` set (take k subs)) r r'"
    then show "row_step ne {d} r r'"
      using assms(3) ids by (intro renewal_step_row_step) auto
  qed
  have ev: "ev_ok ne {d} (store st) e \<and> \<not> is_refresh_for d' e" if "e \<in> set evs" for e d'
  proof (cases "is_remote_call e")
    case True
    then have "e \<in> set (filter is_remote_call evs)" using that by simp
    then obtain s where "s \<in> set (take k subs)"
      "e = SubscriptionUpdate ne (subscription_id s) tok (domain s)"
      unfolding r(3) by auto
    moreover have "s \<in> set subs" using calculation(1) set_take_subset[of k subs] by blast
    ultimately show ?thesis using assms(2) by simp
  next
    case False
    show ?thesis
    proof (cases e)
      case (DbCommit rows)
      then have "rows \<in> set (commits evs)" using that by (simp add: commits_iff)
      then have "list_all2 (renewal_step ne tok rt (subscription_id ` set (take k subs))) (store st) rows"
        using r(4) by (simp add: list_all_iff)
      then show ?thesis using DbCommit conv by simp
    qed (use False in simp_all)
  qed
  have "list_all2 (row_step ne {d}) (store st) (store st')"
    using r(4) conv by simp
  then show ?thesis using r(1) ev by (intro exI[of _ evs]) (simp add: list_all_iff)
qed

lemma distinct_map_eq:
  assumes "distinct (map f xs)" "x \<in> set xs" "y \<in> set xs" "f x = f y"
  shows "x = y"
  using assms by (meson distinct_map inj_onD)

lemma is_push_for_remote: "is_push_for d e \<Longrightarrow> is_remote_call e"
  by (cases e) simp_all

lemma is_refresh_for_remote: "is_refresh_for d e \<Longrightarrow> is_remote_call e"
  by (cases e) simp_all

text \<open>
  The renewal of one domain: what it logs and what it may change. It makes at most one
  refresh request, for its own domain; when that request fails, it raises with the table
  as it was, and no push and no commit.
\<close>

lemma renew_domain_run:
  assumes "renew_domain en ne sub st = (res, st')"
    and "distinct (map subscription_id (store st))"
  shows "\<exists>evs. trace st' = trace st @ evs \<and>
           list_all (ev_ok ne {sub} (store st)) evs \<and>
           list_all2 (row_step ne {sub}) (store st) (store st') \<and>
           (\<forall>d. length (filter (is_refresh_for d) evs) \<le> (if d = sub then 1 else 0)) \<and>
           (res = Inr () \<longrightarrow> length (filter (is_refresh_for sub) evs) = 1) \<and>
           (\<forall>d. failed_refresh_for en (length (trace st)) d evs \<longrightarrow>
                 (\<exists>e. res = Inl e) \<and> store st' = store st \<and>
                 list_all (\<lambda>e. \<not> is_commit e \<and> (\<forall>d'. \<not> is_push_for d' e)) evs)"
proof (cases "db_fails en (length (trace st))")
  case True
  then have "res = Inl session_error" "st' = log DbRollback st"
    using assms(1) by (simp_all add: renew_domain_def read_from_table_domain)
  then show ?thesis
    by (intro exI[of _ "[DbRollback]"]) (simp add: list_all2_row_step_refl)
next
  case up: False
  let ?st1 = "log DbSelect st"
  let ?subs = "filter (\<lambda>r. domain r = sub) (store st)"
  show ?thesis
  proof (cases ?subs)
    case Nil
    then have "res = Inl IndexError" "st' = ?st1"
      using assms(1) up by (simp_all add: renew_domain_def read_from_table_domain)
    then show ?thesis
      by (intro exI[of _ "[DbSelect]"]) (simp add: list_all2_row_step_refl)
  next
    case (Cons first others)
    let ?tok = "refresh_token first"
    obtain rres st2 where rf: "refresh_access_token en sub ?tok ?st1 = (rres, st2)"
      by (cases "refresh_access_token en sub ?tok ?st1") auto
    note run = refresh_access_token_run[OF rf]
    from run(2) obtain pre where pre: "trace st2 = trace st @ [DbSelect, RefreshRequest sub ?tok] @ pre"
      "list_all (\<lambda>e. \<not> is_remote_call e \<and> \<not> is_commit e) pre"
      by (elim disjE exE) auto
    have pre_ok: "list_all (ev_ok ne {sub} (store st)) pre"
      "\<And>d. filter (is_refresh_for d) pre = []"
      "\<And>d n. \<not> failed_refresh_for en n d pre"
    proof -
      have a: "\<And>e. e \<in> set pre \<Longrightarrow> \<not> is_remote_call e \<and> \<not> is_commit e"
        using pre(2) by (simp add: list_all_iff)
      have b: "ev_ok ne {sub} (store st) e \<and> \<not> is_refresh_for d e" if "e \<in> set pre" for e d
        using a[OF that] by (cases e) simp_all
      show "list_all (ev_ok ne {sub} (store st)) pre" using b by (simp add: list_all_iff)
      show "\<And>d. filter (is_refresh_for d) pre = []" using b by (simp add: filter_empty_conv)
      show "\<And>d n. \<not> failed_refresh_for en n d pre"
        using b by (intro failed_refresh_for_none) (simp add: list_all_iff)
    qed
    have unf: "renew_domain en ne sub st =
        (case rres of
           Inl e \<Rightarrow> (Inl e, st2)
         | Inr td \<Rightarrow>
             if truthy (access_token td)
             then update_each en ne (the (access_token td)) (json_refresh_token td) ?subs st2
             else (Inl (Exception ''Failed to get new token for {sub.domain}''), st2))"
      using up Cons rf by (simp add: renew_domain_def read_from_table_domain split: sum.splits)
    have stop: ?thesis if "st' = st2" "\<exists>e. res = Inl e"
      using that pre pre_ok run(1)
      by (intro exI[of _ "[DbSelect, RefreshRequest sub ?tok] @ pre"])
         (auto simp: list_all2_row_step_refl failed_refresh_for_append list_all_iff
            dest: is_push_for_remote)
    show ?thesis
    proof (cases rres)
      case (Inl e)
      then have "(Inl e, st2) = (res, st')" using assms(1) unf by simp
      then have "st' = st2" "\<exists>e. res = Inl e" by auto
      then show ?thesis by (rule stop)
    next
      case (Inr td)
      show ?thesis
      proof (cases "truthy (access_token td)")
        case False
        then have "(Inl (Exception ''Failed to get new token for {sub.domain}''), st2) = (res, st')"
          using assms(1) unf Inr by simp
        then have "st' = st2" "\<exists>e. res = Inl e" by auto
        then show ?thesis by (rule stop)
      next
        case True
        have ue: "update_each en ne (the (access_token td)) (json_refresh_token td) ?subs st2
                  = (res, st')"
          using assms(1) unf Inr True by simp
        have nofail: "\<not> refresh_failed (post_tokens_refresh en (Suc (length (trace st))) ?tok)"
          using run(3) Inr True by auto
        have dom: "\<forall>s \<in> set ?subs. domain s = sub" by simp
        have own: "\<forall>r \<in> set (store st2).
            subscription_id r \<in> subscription_id ` set ?subs \<longrightarrow> domain r = sub"
        proof (intro ballI impI)
          fix r assume r: "r \<in> set (store st2)" "subscription_id r \<in> subscription_id ` set ?subs"
          then obtain s where s: "s \<in> set (store st)" "domain s = sub"
            "subscription_id r = subscription_id s" by auto
          have "r = s"
            using distinct_map_eq[OF assms(2) _ s(1) s(3)] r(1) run(1) by simp
          then show "domain r = sub" using s(2) by simp
        qed
        from update_each_domain[OF ue dom own] obtain evs where u:
          "trace st' = trace st2 @ evs" "list_all (ev_ok ne {sub} (store st2)) evs"
          "\<And>d. list_all (\<lambda>e. \<not> is_refresh_for d e) evs"
          "list_all2 (row_step ne {sub}) (store st2) (store st')"
          by blast
        have norefresh: "filter (is_refresh_for d) evs = []" for d
          using u(3)[of d] by (simp add: filter_empty_conv list_all_iff)
        have nf: "\<not> failed_refresh_for en n d evs" for n d
          by (rule failed_refresh_for_none[OF u(3)])
        have st2: "store st2 = store st" using run(1) by simp
        show ?thesis
          using u(1,2,4) pre pre_ok norefresh nf nofail unfolding st2
          by (intro exI[of _ "[DbSelect, RefreshRequest sub ?tok] @ pre @ evs"])
             (simp add: failed_refresh_for_append)
      qed
    qed
  qed
qed

lemma failed_refresh_for_event:
  "failed_refresh_for en n d evs \<Longrightarrow> \<exists>tok. RefreshRequest d tok \<in> set evs"
  by (induction en n d evs rule: failed_refresh_for.induct) auto

lemma ev_ok_push: "ev_ok ne D rows0 e \<Longrightarrow> is_push_for d e \<Longrightarrow> d \<in> D"
  by (cases e) simp_all

lemma ev_ok_refresh: "ev_ok ne D rows0 e \<Longrightarrow> is_refresh_for d e \<Longrightarrow> d \<in> D"
  by (cases e) simp_all

lemma ev_ok_untouched:
  assumes "list_all (ev_ok ne D rows0) evs" "d \<notin> D"
  shows "list_all (\<lambda>e. \<not> is_push_for d e) evs"
    and "list_all (\<lambda>rows. filter (\<lambda>r. domain r = d) rows = filter (\<lambda>r. domain r = d) rows0)
           (commits evs)"
    and "filter (is_refresh_for d) evs = []"
proof -
  show "list_all (\<lambda>e. \<not> is_push_for d e) evs"
    using assms ev_ok_push by (auto simp: list_all_iff)
  show "filter (is_refresh_for d) evs = []"
    using assms ev_ok_refresh by (auto simp: list_all_iff filter_empty_conv)
  have "filter (\<lambda>r. domain r = d) rows = filter (\<lambda>r. domain r = d) rows0"
    if "rows \<in> set (commits evs)" for rows
  proof -
    from that have "DbCommit rows \<in> set evs" by (simp add: commits_iff)
    then have "ev_ok ne D rows0 (DbCommit rows)" using assms(1) by (auto simp: list_all_iff)
    then have "list_all2 (row_step ne D) rows0 rows" by simp
    then show ?thesis by (rule row_step_untouched[OF _ assms(2)])
  qed
  then show "list_all (\<lambda>rows. filter (\<lambda>r. domain r = d) rows = filter (\<lambda>r. domain r = d) rows0)
           (commits evs)"
    by (simp add: list_all_iff)
qed

lemma no_commit_events: "list_all (\<lambda>e. \<not> is_commit e \<and> P e) evs \<Longrightarrow> commits evs = []"
  by (induction evs rule: commits.induct) simp_all

text \<open>
  The loop over the domains. The first exception ends it. Every domain is asked for at
  most one refresh, and for exactly one when the loop runs to its end; a domain whose
  refresh failed has had no push, and its rows are in every committed state what they
  were at the start.
\<close>

lemma renew_domains_run:
  assumes "renew_domains en ne ds st = (res, st')"
    and "distinct (map subscription_id (store st))" "distinct ds"
  shows "\<exists>evs. trace st' = trace st @ evs \<and>
           list_all (ev_ok ne (set ds) (store st)) evs \<and>
           list_all2 (row_step ne (set ds)) (store st) (store st') \<and>
           (\<forall>d. length (filter (is_refresh_for d) evs) \<le> (if d \<in> set ds then 1 else 0)) \<and>
           (res = Inr () \<longrightarrow> (\<forall>d \<in> set ds. length (filter (is_refresh_for d) evs) = 1)) \<and>
           (\<forall>d. failed_refresh_for en (length (trace st)) d evs \<longrightarrow>
                 (\<exists>e. res = Inl e) \<and> list_all (\<lambda>e. \<not> is_push_for d e) evs \<and>
                 list_all (\<lambda>rows. filter (\<lambda>r. domain r = d) rows
                                    = filter (\<lambda>r. domain r = d) (store st))
                   (store st' # commits evs))"
  using assms
proof (induction ds arbitrary: st)
  case Nil
  then show ?case by (auto simp: list_all2_row_step_refl)
next
  case (Cons sub rest)
  obtain r1 st1 where rd: "renew_domain en ne sub st = (r1, st1)"
    by (cases "renew_domain en ne sub st") auto
  from renew_domain_run[OF rd Cons.prems(2)] obtain evs1 where a:
    "trace st1 = trace st @ evs1"
    "list_all (ev_ok ne {sub} (store st)) evs1"
    "list_all2 (row_step ne {sub}) (store st) (store st1)"
    "\<And>d. length (filter (is_refresh_for d) evs1) \<le> (if d = sub then 1 else 0)"
    "r1 = Inr () \<longrightarrow> length (filter (is_refresh_for sub) evs1) = 1"
    "\<And>d. failed_refresh_for en (length (trace st)) d evs1 \<Longrightarrow>
          (\<exists>e. r1 = Inl e) \<and> store st1 = store st \<and>
          list_all (\<lambda>e. \<not> is_commit e \<and> (\<forall>d'. \<not> is_push_for d' e)) evs1"
    by blast
  have "ev_ok ne (set (sub # rest)) (store st) e" if "e \<in> set evs1" for e
  proof -
    have "ev_ok ne {sub} (store st) e" using a(2) that by (auto simp: list_all_iff)
    then show ?thesis by (rule ev_ok_mono) simp
  qed
  then have ok1: "list_all (ev_ok ne (set (sub # rest)) (store st)) evs1"
    by (simp add: list_all_iff)
  have rs1: "list_all2 (row_step ne (set (sub # rest))) (store st) (store st1)"
    using a(3) by (rule list_all2_row_step_mono) simp
  show ?case
  proof (cases r1)
    case (Inl e)
    then have fin: "res = Inl e" "st' = st1" using Cons.prems(1) rd by simp_all
    have cnt: "length (filter (is_refresh_for d) evs1) \<le> (if d \<in> set (sub # rest) then 1 else 0)"
      for d using a(4)[of d] by (auto split: if_splits)
    have fl: "list_all (\<lambda>e. \<not> is_push_for d e) evs1 \<and>
        list_all (\<lambda>rows. filter (\<lambda>r. domain r = d) rows = filter (\<lambda>r. domain r = d) (store st))
          (store st1 # commits evs1)"
      if "failed_refresh_for en (length (trace st)) d evs1" for d
      using a(6)[OF that] no_commit_events[of "\<lambda>e. \<forall>d'. \<not> is_push_for d' e" evs1]
      by (auto simp: list_all_iff)
    show ?thesis
      using a(1) ok1 rs1 cnt fl unfolding fin
      by (intro exI[of _ evs1]) simp
  next
    case (Inr u)
    then have rec: "renew_domains en ne rest st1 = (res, st')" using Cons.prems(1) rd by simp
    have d1: "distinct (map subscription_id (store st1))"
      using row_step_keys(1)[OF a(3)] Cons.prems(2) by simp
    have dr: "distinct rest" "sub \<notin> set rest" using Cons.prems(3) by simp_all
    from Cons.IH[OF rec d1 dr(1)] obtain evs2 where b:
      "trace st' = trace st1 @ evs2"
      "list_all (ev_ok ne (set rest) (store st1)) evs2"
      "list_all2 (row_step ne (set rest)) (store st1) (store st')"
      "\<And>d. length (filter (is_refresh_for d) evs2) \<le> (if d \<in> set rest then 1 else 0)"
      "res = Inr () \<longrightarrow> (\<forall>d \<in> set rest. length (filter (is_refresh_for d) evs2) = 1)"
      "\<And>d. failed_refresh_for en (length (trace st1)) d evs2 \<Longrightarrow>
          (\<exists>e. res = Inl e) \<and> list_all (\<lambda>e. \<not> is_push_for d e) evs2 \<and>
          list_all (\<lambda>rows. filter (\<lambda>r. domain r = d) rows = filter (\<lambda>r. domain r = d) (store st1))
            (store st' # commits evs2)"
      by blast
    have u: "{sub} \<union> set rest = set (sub # rest)" by simp
    have "ev_ok ne ({sub} \<union> set rest) (store st) e" if "e \<in> set evs2" for e
    proof -
      have "ev_ok ne (set rest) (store st1) e" using b(2) that by (auto simp: list_all_iff)
      then show ?thesis using a(3) by (rule ev_ok_rebase)
    qed
    then have ok2: "list_all (ev_ok ne (set (sub # rest)) (store st)) evs2"
      unfolding u by (simp add: list_all_iff)
    have rs: "list_all2 (row_step ne (set (sub # rest))) (store st) (store st')"
      using list_all2_row_step_trans[OF a(3) b(3)] unfolding u .
    have z1: "filter (is_refresh_for d) evs1 = []" if "d \<noteq> sub" for d
      using a(4)[of d] that by simp
    have z2: "filter (is_refresh_for sub) evs2 = []"
      using b(4)[of sub] dr(2) by simp
    have cnt: "length (filter (is_refresh_for d) (evs1 @ evs2))
               \<le> (if d \<in> set (sub # rest) then 1 else 0)" for d
    proof (cases "d = sub")
      case True
      then show ?thesis using a(4)[of sub] z2 by simp
    next
      case False
      then show ?thesis using z1[OF False] b(4)[of d] by simp
    qed
    have all: "res = Inr () \<longrightarrow>
        (\<forall>d \<in> set (sub # rest). length (filter (is_refresh_for d) (evs1 @ evs2)) = 1)"
    proof (intro impI ballI)
      fix d assume r: "res = Inr ()" and d: "d \<in> set (sub # rest)"
      show "length (filter (is_refresh_for d) (evs1 @ evs2)) = 1"
      proof (cases "d = sub")
        case True
        then show ?thesis using a(5) Inr z2 by simp
      next
        case False
        then have "d \<in> set rest" using d by simp
        then show ?thesis using z1[OF False] b(5) r by simp
      qed
    qed
    have fl: "(\<exists>e. res = Inl e) \<and> list_all (\<lambda>e. \<not> is_push_for d e) (evs1 @ evs2) \<and>
        list_all (\<lambda>rows. filter (\<lambda>r. domain r = d) rows = filter (\<lambda>r. domain r = d) (store st))
          (store st' # commits (evs1 @ evs2))"
      if f: "failed_refresh_for en (length (trace st)) d (evs1 @ evs2)" for d
    proof -
      have "\<not> failed_refresh_for en (length (trace st)) d evs1"
        using a(6)[of d] Inr by auto
      then have f2: "failed_refresh_for en (length (trace st1)) d evs2"
        using f a(1) by (simp add: failed_refresh_for_append)
      note c = b(6)[OF f2]
      obtain tok where "RefreshRequest d tok \<in> set evs2"
        using failed_refresh_for_event[OF f2] by blast
      then have "ev_ok ne (set rest) (store st1) (RefreshRequest d tok)"
        using b(2) by (auto simp: list_all_iff)
      then have "d \<in> set rest" by simp
      then have dn: "d \<notin> {sub}" using dr(2) by auto
      note un = ev_ok_untouched[OF a(2) dn]
      have same: "filter (\<lambda>r. domain r = d) (store st1) = filter (\<lambda>r. domain r = d) (store st)"
        by (rule row_step_untouched[OF a(3) dn])
      show ?thesis using c un(1,2) unfolding same by simp
    qed
    show ?thesis
      using a(1) b(1) ok1 ok2 rs cnt all fl
      by (intro exI[of _ "evs1 @ evs2"]) simp
  qed
qed

text \<open>
  The two ways through the renewal of one domain: it raises before the loop over the
  subscriptions, having changed nothing, or it reaches the loop with the token pair of
  the refresh made with the first row's refresh token.
\<close>

lemma renew_domain_cases:
  assumes "renew_domain en ne sub st = (res, st')"
  obtains (stopped) evs where "\<exists>e. res = Inl e" "store st' = store st"
      "trace st' = trace st @ evs" "list_all (\<lambda>e. \<not> is_commit e \<and> (\<forall>d. \<not> is_push_for d e)) evs"
    | (loop) first others j st2 pre where
      "filter (\<lambda>r. domain r = sub) (store st) = first # others"
      "post_tokens_refresh en (Suc (length (trace st))) (refresh_token first) = (200, j)"
      "truthy (access_token j)" "store st2 = store st"
      "trace st2 = trace st @ [DbSelect, RefreshRequest sub (refresh_token first)] @ pre"
      "list_all (\<lambda>e. \<not> is_remote_call e \<and> \<not> is_commit e) pre"
      "update_each en ne (the (access_token j)) (json_refresh_token j) (first # others) st2
         = (res, st')"
proof (cases "db_fails en (length (trace st))")
  case True
  then have "res = Inl session_error" "st' = log DbRollback st"
    using assms(1) by (simp_all add: renew_domain_def read_from_table_domain)
  then show ?thesis by (intro stopped[of "[DbRollback]"]) simp_all
next
  case up: False
  let ?st1 = "log DbSelect st"
  let ?subs = "filter (\<lambda>r. domain r = sub) (store st)"
  show ?thesis
  proof (cases ?subs)
    case Nil
    then have "res = Inl IndexError" "st' = ?st1"
      using assms(1) up by (simp_all add: renew_domain_def read_from_table_domain)
    then show ?thesis by (intro stopped[of "[DbSelect]"]) simp_all
  next
    case (Cons first others)
    let ?tok = "refresh_token first"
    obtain rres st2 where rf: "refresh_access_token en sub ?tok ?st1 = (rres, st2)"
      by (cases "refresh_access_token en sub ?tok ?st1") auto
    note run = refresh_access_token_run[OF rf]
    from run(2) obtain pre where pre: "trace st2 = trace st @ [DbSelect, RefreshRequest sub ?tok] @ pre"
      "list_all (\<lambda>e. \<not> is_remote_call e \<and> \<not> is_commit e) pre"
      by (elim disjE exE) auto
    have unf: "renew_domain en ne sub st =
        (case rres of
           Inl e \<Rightarrow> (Inl e, st2)
         | Inr td \<Rightarrow>
             if truthy (access_token td)
             then update_each en ne (the (access_token td)) (json_refresh_token td) ?subs st2
             else (Inl (Exception ''Failed to get new token for {sub.domain}''), st2))"
      using up Cons rf by (simp add: renew_domain_def read_from_table_domain split: sum.splits)
    have quiet: "list_all (\<lambda>e. \<not> is_commit e \<and> (\<forall>d. \<not> is_push_for d e))
                   ([DbSelect, RefreshRequest sub ?tok] @ pre)"
      using pre(2) by (auto simp: list_all_iff dest: is_push_for_remote)
    have stop: ?thesis if "st' = st2" "\<exists>e. res = Inl e"
      using that pre(1) run(1) quiet
      by (intro stopped[of "[DbSelect, RefreshRequest sub ?tok] @ pre"]) simp_all
    show ?thesis
    proof (cases rres)
      case (Inl e)
      then have "(Inl e, st2) = (res, st')" using assms(1) unf by simp
      then have "st' = st2" "\<exists>e. res = Inl e" by auto
      then show ?thesis by (rule stop)
    next
      case (Inr td)
      show ?thesis
      proof (cases "truthy (access_token td)")
        case False
        then have "(Inl (Exception ''Failed to get new token for {sub.domain}''), st2) = (res, st')"
          using assms(1) unf Inr by simp
        then have "st' = st2" "\<exists>e. res = Inl e" by auto
        then show ?thesis by (rule stop)
      next
        case True
        obtain sc j where pj: "post_tokens_refresh en (Suc (length (trace st))) ?tok = (sc, j)"
          by (cases "post_tokens_refresh en (Suc (length (trace st))) ?tok") auto
        from run(4)[OF Inr] pj have j: "sc = 200" "access_token td = access_token j"
          "json_refresh_token td = json_refresh_token j" by simp_all
        have ue: "update_each en ne (the (access_token j)) (json_refresh_token j) (first # others) st2
                  = (res, st')"
          using assms(1) unf Inr True Cons j by simp
        show ?thesis
          using Cons pj j True run(1) pre ue by (intro loop[of first others j st2 pre]) simp_all
      qed
    qed
  qed
qed

lemma update_each_append:
  "update_each en ne tok rt (xs @ ys) st =
     (case update_each en ne tok rt xs st of
        (Inl e, st1) \<Rightarrow> (Inl e, st1)
      | (Inr u, st1) \<Rightarrow> update_each en ne tok rt ys st1)"
  by (induction xs arbitrary: st) (auto split: prod.splits sum.splits)


lemma distinct_unique_domains: "distinct (unique_domains en subs)"
  by (simp add: unique_domains_def)

lemma set_unique_domains: "set (unique_domains en subs) = domain ` set subs"
  by (simp add: unique_domains_def)

lemma unique_domains_Nil: "unique_domains en subs = [] \<longleftrightarrow> subs = []"
  using set_unique_domains[of en subs] by (metis empty_set image_is_empty set_empty)

text \<open>
  The three ways through a cycle: an exception before any domain is renewed, nothing
  to renew, or the loop over the domains of the rows the scan returned.
\<close>

lemma cycle_cases:
  assumes "check_and_update_subscriptions en cfg st = (res, st')"
  obtains (failed) evs where "\<exists>e. res = Inl e" "store st' = store st"
      "trace st' = trace st @ evs" "list_all (\<lambda>e. \<not> is_remote_call e \<and> \<not> is_commit e) evs"
    | (idle) T1 where "res = Inr ()" "store st' = store st"
      "dt_add (clock en (length (trace st))) (timedelta_seconds (RENEWAL_INTERVAL cfg)) = Inr T1"
      "filter (\<lambda>r. expires r \<le> strftime T1) (store st) = []"
      "trace st' = trace st @ [ClockRead (clock en (length (trace st))), DbSelect]"
    | (renew) T1 T2 st3 where
      "dt_add (clock en (length (trace st))) (timedelta_seconds (RENEWAL_INTERVAL cfg)) = Inr T1"
      "\<not> db_fails en (Suc (length (trace st)))"
      "filter (\<lambda>r. expires r \<le> strftime T1) (store st) \<noteq> []"
      "dt_add (clock en (length (trace st) + 2)) (SUBSCRIPTION_DURATION cfg) = Inr T2"
      "store st3 = store st"
      "trace st3 = trace st @ [ClockRead (clock en (length (trace st))), DbSelect,
                                ClockRead (clock en (length (trace st) + 2))]"
      "renew_domains en (strftime T2)
         (unique_domains en (filter (\<lambda>r. expires r \<le> strftime T1) (store st))) st3 = (res, st')"
proof -
  let ?n = "length (trace st)"
  let ?c0 = "ClockRead (clock en ?n)"
  show ?thesis
  proof (cases "dt_add (clock en ?n) (timedelta_seconds (RENEWAL_INTERVAL cfg))")
    case (Inl e)
    then have "res = Inl e" "st' = log ?c0 st"
      using assms by (simp_all add: check_and_update_subscriptions_def fetch_expiring_subscriptions_eq)
    then show ?thesis by (intro failed[of "[?c0]"]) simp_all
  next
    case (Inr T1)
    show ?thesis
    proof (cases "db_fails en (Suc ?n)")
      case True
      then have "res = Inl session_error" "st' = log DbRollback (log ?c0 st)"
        using assms Inr
        by (simp_all add: check_and_update_subscriptions_def fetch_expiring_subscriptions_eq)
      then show ?thesis by (intro failed[of "[?c0, DbRollback]"]) simp_all
    next
      case up: False
      let ?subs = "filter (\<lambda>r. expires r \<le> strftime T1) (store st)"
      let ?st1 = "log DbSelect (log ?c0 st)"
      have f: "fetch_expiring_subscriptions en cfg st = (Inr ?subs, ?st1)"
        using Inr up by (simp add: fetch_expiring_subscriptions_eq)
      show ?thesis
      proof (cases "?subs = []")
        case True
        then have "unique_domains en ?subs = []" by (simp add: unique_domains_Nil)
        then have "res = Inr ()" "st' = ?st1"
          using assms f by (simp_all add: check_and_update_subscriptions_def)
        then show ?thesis using Inr True by (intro idle[of T1]) simp_all
      next
        case False
        then have ne: "unique_domains en ?subs \<noteq> []" by (simp add: unique_domains_Nil)
        let ?c2 = "ClockRead (clock en (?n + 2))"
        let ?st2 = "log ?c2 ?st1"
        have unf: "check_and_update_subscriptions en cfg st =
            (case dt_add (clock en (?n + 2)) (SUBSCRIPTION_DURATION cfg) of
               Inl e \<Rightarrow> (Inl e, ?st2)
             | Inr T2 \<Rightarrow> renew_domains en (strftime T2) (unique_domains en ?subs) ?st2)"
          using f ne by (simp add: check_and_update_subscriptions_def now_eq Let_def split: sum.splits)
        show ?thesis
        proof (cases "dt_add (clock en (?n + 2)) (SUBSCRIPTION_DURATION cfg)")
          case (Inl e)
          then have "(Inl e, ?st2) = (res, st')" using assms unf by simp
          then have "res = Inl e" "st' = ?st2" by auto
          then show ?thesis by (intro failed[of "[?c0, DbSelect, ?c2]"]) simp_all
        next
          case T2: (Inr T2)
          then have "renew_domains en (strftime T2) (unique_domains en ?subs) ?st2 = (res, st')"
            using assms unf by simp
          then show ?thesis using Inr up False T2 by (intro renew[of T1 T2 ?st2]) simp_all
        qed
      qed
    qed
  qed
qed

lemma update_table_renewal_ok:
  assumes "\<not> db_fails en (length (trace st))"
    "filter (\<lambda>r. subscription_id r = sid) (store st) \<noteq> []"
    "distinct (map subscription_id (store st))"
  shows "update_table en [(''subscription_id'', Some sid)]
           [(''expires'', Some ne), (''last_updated'', Some lu), (''oauth_token'', Some tok),
            (''refresh_token'', Some x)] st =
         (Inr (),
          \<lparr>store = map (\<lambda>r. if subscription_id r = sid
                               then r\<lparr>expires := ne, last_updated := Some lu,
                                      oauth_token := tok, refresh_token := x\<rparr>
                               else r) (store st),
           trace = trace st @ [DbCommit (map (\<lambda>r. if subscription_id r = sid
                               then r\<lparr>expires := ne, last_updated := Some lu,
                                      oauth_token := tok, refresh_token := x\<rparr>
                               else r) (store st))]\<rparr>)"
proof -
  let ?rows = "map (\<lambda>r. if subscription_id r = sid
                               then r\<lparr>expires := ne, last_updated := Some lu,
                                      oauth_token := tok, refresh_token := x\<rparr>
                               else r) (store st)"
  have u: "update_rows [(''subscription_id'', Some sid)]
             [(''expires'', Some ne), (''last_updated'', Some lu), (''oauth_token'', Some tok),
              (''refresh_token'', Some x)] (store st)
            = Some (map (\<lambda>r. if matches [(''subscription_id'', Some sid)] r
                                   then r\<lparr>expires := ne, last_updated := Some lu,
                                          oauth_token := tok, refresh_token := x\<rparr>
                                   else r) (store st))"
    by (rule update_rows_map) (simp add: set_all_renewal del: set_all.simps)
  have "map subscription_id ?rows = map subscription_id (store st)"
    by (induction "store st") auto
  then have d: "distinct (map subscription_id ?rows)" using assms(3) by (simp only:)
  show ?thesis
    using assms(1,2) u d
    by (simp add: update_table_def Let_def matches_subscription_id_fun log_def)
qed

lemma refresh_refused_env_simps:
  "clock refresh_refused_env n = example_now"
  "db_fails refresh_refused_env n = False"
  "str_hash refresh_refused_env s = 0"
  "post_tokens_refresh refresh_refused_env n tok =
     (if tok = ''r1'' then (400, \<lparr>access_token = None, json_refresh_token = None, expires_in = None\<rparr>)
      else (200, example_token))"
  "put_subscription refresh_refused_env n e sid t d = 202"
  by (simp_all add: refresh_refused_env_def example_env_def)

lemma update_refused_env_simps:
  "clock update_refused_env n = example_now"
  "db_fails update_refused_env n = False"
  "str_hash update_refused_env s = 0"
  "post_tokens_refresh update_refused_env n tok = (200, example_token)"
  "put_subscription update_refused_env n e sid t d = (if sid = ''s1'' then 500 else 202)"
  by (simp_all add: update_refused_env_def example_env_def)

lemma example_token_simps:
  "access_token example_token = Some ''new-access''"
  "json_refresh_token example_token = Some ''new-refresh''"
  "expires_in example_token = Some 3600"
  by (simp_all add: example_token_def)

lemma example_scan_any:
  assumes "clock en 0 = example_now" "\<not> db_fails en (Suc 0)"
  shows "fetch_expiring_subscriptions en example_config example_state =
     (Inr [example_row (Suc 0) ''a.com'' ''s1'' ''2025-01-01 00:30:00'' ''r1'',
           example_row 3 ''b.com'' ''s3'' ''2025-01-01 00:45:00'' ''r3''],
      \<lparr>store = example_store, trace = [ClockRead example_now, DbSelect]\<rparr>)"
  using assms
  by (simp add: fetch_expiring_subscriptions_eq example_config_simps log_def
      example_threshold example_strftime example_state_def example_store_def example_row_def)

lemma example_domains:
  "unique_domains en [example_row (Suc 0) ''a.com'' ''s1'' ''2025-01-01 00:30:00'' ''r1'',
                      example_row 3 ''b.com'' ''s3'' ''2025-01-01 00:45:00'' ''r3'']
     = (if str_hash en ''a.com'' \<le> str_hash en ''b.com'' then [''a.com'', ''b.com'']
        else [''b.com'', ''a.com''])"
  by (simp add: unique_domains_def example_row_def)

lemmas eval_cycle = check_and_update_subscriptions_def example_domains now_eq
  example_new_expiry example_threshold example_strftime example_config_simps
  renew_domain_def read_from_table_domain refresh_access_token_def token_expiry_eq
  update_subscription_eq example_token_simps with_expires_def truthy_def log_def
  example_store_def example_row_def


lemma refused_renew_domain: "renew_domain refresh_refused_env ''2025-01-02 00:00:00'' ''a.com''
     \<lparr>store = example_store, trace = [ClockRead example_now, DbSelect, ClockRead example_now]\<rparr>
   = (Inl (Exception ''Failed to refresh token''),
      \<lparr>store = example_store,
       trace = [ClockRead example_now, DbSelect, ClockRead example_now, DbSelect,
                RefreshRequest ''a.com'' ''r1'']\<rparr>)"
  by (simp add: refresh_refused_env_simps eval_cycle)


lemma refused_cycle:
  "check_and_update_subscriptions refresh_refused_env example_config example_state =
     (Inl (Exception ''Failed to refresh token''),
      \<lparr>store = example_store,
       trace = [ClockRead example_now, DbSelect, ClockRead example_now, DbSelect,
                RefreshRequest ''a.com'' ''r1'']\<rparr>)"
  by (simp add: example_scan_any refresh_refused_env_simps check_and_update_subscriptions_def
      example_domains now_eq example_new_expiry example_strftime example_config_simps log_def
      Let_def refused_renew_domain)


lemmas eval_top = check_and_update_subscriptions_def example_domains now_eq example_new_expiry
  example_strftime example_config_simps log_def Let_def example_scan_any

lemma update_refused_renew_domain:
  "renew_domain update_refused_env ''2025-01-02 00:00:00'' ''a.com''
     \<lparr>store = example_store, trace = [ClockRead example_now, DbSelect, ClockRead example_now]\<rparr>
   = (Inl (Exception ''Failed to update subscription''),
      \<lparr>store = example_store,
       trace = [ClockRead example_now, DbSelect, ClockRead example_now, DbSelect,
                RefreshRequest ''a.com'' ''r1'', ClockRead example_now,
                SubscriptionUpdate ''2025-01-02 00:00:00'' ''s1'' ''new-access'' ''a.com'']\<rparr>)"
  by (simp add: update_refused_env_simps eval_cycle)

lemma update_refused_cycle:
  "check_and_update_subscriptions update_refused_env example_config example_state =
     (Inl (Exception ''Failed to update subscription''),
      \<lparr>store = example_store,
       trace = [ClockRead example_now, DbSelect, ClockRead example_now, DbSelect,
                RefreshRequest ''a.com'' ''r1'', ClockRead example_now,
                SubscriptionUpdate ''2025-01-02 00:00:00'' ''s1'' ''new-access'' ''a.com'']\<rparr>)"
  by (simp add: update_refused_env_simps eval_top update_refused_renew_domain)

lemma example_renew_a:
  "renew_domain example_env ''2025-01-02 00:00:00'' ''a.com'' \<lparr>store = example_store, trace = tr\<rparr>
   = (Inr (),
      \<lparr>store = [example_renewed (example_row (Suc 0) ''a.com'' ''s1'' ''2025-01-01 00:30:00'' ''r1''),
                example_renewed (example_row 2 ''a.com'' ''s2'' ''2026-01-01 00:00:00'' ''r2''),
                example_row 3 ''b.com'' ''s3'' ''2025-01-01 00:45:00'' ''r3''],
       trace = tr @ [DbSelect, RefreshRequest ''a.com'' ''r1'', ClockRead example_now,
                SubscriptionUpdate ''2025-01-02 00:00:00'' ''s1'' ''new-access'' ''a.com'',
                ClockRead example_now,
                DbCommit [example_renewed (example_row (Suc 0) ''a.com'' ''s1'' ''2025-01-01 00:30:00'' ''r1''),
                          example_row 2 ''a.com'' ''s2'' ''2026-01-01 00:00:00'' ''r2'',
                          example_row 3 ''b.com'' ''s3'' ''2025-01-01 00:45:00'' ''r3''],
                SubscriptionUpdate ''2025-01-02 00:00:00'' ''s2'' ''new-access'' ''a.com'',
                ClockRead example_now,
                DbCommit [example_renewed (example_row (Suc 0) ''a.com'' ''s1'' ''2025-01-01 00:30:00'' ''r1''),
                          example_renewed (example_row 2 ''a.com'' ''s2'' ''2026-01-01 00:00:00'' ''r2''),
                          example_row 3 ''b.com'' ''s3'' ''2025-01-01 00:45:00'' ''r3'']]\<rparr>)"
  by (simp add: example_env_simps eval_cycle update_table_renewal_ok example_renewed_def)


lemma example_renew_b:
  "renew_domain example_env ''2025-01-02 00:00:00'' ''b.com''
     \<lparr>store = [example_renewed (example_row (Suc 0) ''a.com'' ''s1'' ''2025-01-01 00:30:00'' ''r1''), example_renewed (example_row 2 ''a.com'' ''s2'' ''2026-01-01 00:00:00'' ''r2''), example_row 3 ''b.com'' ''s3'' ''2025-01-01 00:45:00'' ''r3''], trace = tr\<rparr>
   = (Inr (),
      \<lparr>store = [example_renewed (example_row (Suc 0) ''a.com'' ''s1'' ''2025-01-01 00:30:00'' ''r1''), example_renewed (example_row 2 ''a.com'' ''s2'' ''2026-01-01 00:00:00'' ''r2''), example_renewed (example_row 3 ''b.com'' ''s3'' ''2025-01-01 00:45:00'' ''r3'')],
       trace = tr @ [DbSelect, RefreshRequest ''b.com'' ''r3'', ClockRead example_now,
                SubscriptionUpdate ''2025-01-02 00:00:00'' ''s3'' ''new-access'' ''b.com'',
                ClockRead example_now,
                DbCommit [example_renewed (example_row (Suc 0) ''a.com'' ''s1'' ''2025-01-01 00:30:00'' ''r1''), example_renewed (example_row 2 ''a.com'' ''s2'' ''2026-01-01 00:00:00'' ''r2''), example_renewed (example_row 3 ''b.com'' ''s3'' ''2025-01-01 00:45:00'' ''r3'')]]\<rparr>)"
  by (simp add: example_env_simps eval_cycle update_table_renewal_ok example_renewed_def)

lemma example_cycle:
  "check_and_update_subscriptions example_env example_config example_state =
     (Inr (),
      \<lparr>store = [example_renewed (example_row (Suc 0) ''a.com'' ''s1'' ''2025-01-01 00:30:00'' ''r1''), example_renewed (example_row 2 ''a.com'' ''s2'' ''2026-01-01 00:00:00'' ''r2''), example_renewed (example_row 3 ''b.com'' ''s3'' ''2025-01-01 00:45:00'' ''r3'')],
       trace = [ClockRead example_now, DbSelect, ClockRead example_now,
                DbSelect, RefreshRequest ''a.com'' ''r1'', ClockRead example_now,
                SubscriptionUpdate ''2025-01-02 00:00:00'' ''s1'' ''new-access'' ''a.com'',
                ClockRead example_now,
                DbCommit [example_renewed (example_row (Suc 0) ''a.com'' ''s1'' ''2025-01-01 00:30:00'' ''r1''), example_row 2 ''a.com'' ''s2'' ''2026-01-01 00:00:00'' ''r2'', example_row 3 ''b.com'' ''s3'' ''2025-01-01 00:45:00'' ''r3''],
                SubscriptionUpdate ''2025-01-02 00:00:00'' ''s2'' ''new-access'' ''a.com'',
                ClockRead example_now,
                DbCommit [example_renewed (example_row (Suc 0) ''a.com'' ''s1'' ''2025-01-01 00:30:00'' ''r1''), example_renewed (example_row 2 ''a.com'' ''s2'' ''2026-01-01 00:00:00'' ''r2''), example_row 3 ''b.com'' ''s3'' ''2025-01-01 00:45:00'' ''r3''],
                DbSelect, RefreshRequest ''b.com'' ''r3'', ClockRead example_now,
                SubscriptionUpdate ''2025-01-02 00:00:00'' ''s3'' ''new-access'' ''b.com'',
                ClockRead example_now,
                DbCommit [example_renewed (example_row (Suc 0) ''a.com'' ''s1'' ''2025-01-01 00:30:00'' ''r1''), example_renewed (example_row 2 ''a.com'' ''s2'' ''2026-01-01 00:00:00'' ''r2''), example_renewed (example_row 3 ''b.com'' ''s3'' ''2025-01-01 00:45:00'' ''r3'')]]\<rparr>)"
  by (simp add: example_env_simps eval_top example_renew_a[of "[ClockRead example_now, DbSelect, ClockRead example_now]", simplified] example_renew_b)


text \<open>
  One cycle, whole. Between the scan and the loop there is no request; so what the loop
  over the domains shows, the cycle shows: at most one refresh for a domain, exactly one
  for the domain of every row the scan returned when the cycle ends without exception,
  no push and no change for a domain whose refresh failed, and rows that are as before
  or renewed with the expiry computed at the start of the loop.
\<close>

lemma cycle_run:
  assumes "check_and_update_subscriptions en cfg st = (res, st')"
    and "distinct (map subscription_id (store st))"
  obtains evs where "trace st' = trace st @ evs"
    "\<And>d. length (filter (is_refresh_for d) evs) \<le> 1"
    "\<And>d. failed_refresh_for en (length (trace st)) d evs \<Longrightarrow>
       (\<exists>e. res = Inl e) \<and> list_all (\<lambda>e. \<not> is_push_for d e) evs \<and>
       list_all (\<lambda>rows. filter (\<lambda>r. domain r = d) rows = filter (\<lambda>r. domain r = d) (store st))
         (store st' # commits evs)"
    "\<And>T1 r. res = Inr () \<Longrightarrow>
       dt_add (clock en (length (trace st))) (timedelta_seconds (RENEWAL_INTERVAL cfg)) = Inr T1 \<Longrightarrow>
       r \<in> set (store st) \<Longrightarrow> expires r \<le> strftime T1 \<Longrightarrow>
       length (filter (is_refresh_for (domain r)) evs) = 1"
    "\<And>T1 T2.
       dt_add (clock en (length (trace st))) (timedelta_seconds (RENEWAL_INTERVAL cfg)) = Inr T1 \<Longrightarrow>
       dt_add (clock en (length (trace st) + 2)) (SUBSCRIPTION_DURATION cfg) = Inr T2 \<Longrightarrow>
       list_all (list_all2 (row_step (strftime T2)
           (domain ` {r \<in> set (store st). expires r \<le> strftime T1})) (store st))
         (store st' # commits evs)"
  using assms(1)
proof (cases rule: cycle_cases)
  case (failed evs)
  have nr: "list_all (\<lambda>e. \<not> is_refresh_for d e) evs" for d
    using failed(4) by (auto simp: list_all_iff dest: is_refresh_for_remote)
  have c: "commits evs = []"
    using failed(4) by (intro no_commit_events[where P = "\<lambda>e. \<not> is_remote_call e"]) (simp add: list_all_iff)
  show ?thesis
  proof (rule that[of evs])
    show "trace st' = trace st @ evs" by (rule failed(3))
    show "length (filter (is_refresh_for d) evs) \<le> 1" for d
      using nr[of d] by (simp add: list_all_iff filter_empty_conv[THEN iffD2])
    show "(\<exists>e. res = Inl e) \<and> list_all (\<lambda>e. \<not> is_push_for d e) evs \<and>
       list_all (\<lambda>rows. filter (\<lambda>r. domain r = d) rows = filter (\<lambda>r. domain r = d) (store st))
         (store st' # commits evs)"
      if "failed_refresh_for en (length (trace st)) d evs" for d
      using that failed_refresh_for_none[OF nr[of d]] by blast
    show "length (filter (is_refresh_for (domain r)) evs) = 1" if "res = Inr ()" for r
      using that failed(1) by auto
    show "list_all (list_all2 (row_step (strftime T2)
           (domain ` {r \<in> set (store st). expires r \<le> strftime T1})) (store st))
         (store st' # commits evs)" for T1 T2
      by (simp add: c failed(2) list_all2_row_step_refl)
  qed
next
  case (idle T1)
  let ?evs = "[ClockRead (clock en (length (trace st))), DbSelect]"
  show ?thesis
  proof (rule that[of ?evs])
    show "trace st' = trace st @ ?evs" by (rule idle(5))
    show "length (filter (is_refresh_for d) ?evs) \<le> 1" for d by simp
    show "(\<exists>e. res = Inl e) \<and> list_all (\<lambda>e. \<not> is_push_for d e) ?evs \<and>
       list_all (\<lambda>rows. filter (\<lambda>r. domain r = d) rows = filter (\<lambda>r. domain r = d) (store st))
         (store st' # commits ?evs)"
      if "failed_refresh_for en (length (trace st)) d ?evs" for d
      using that by simp
    show "length (filter (is_refresh_for (domain r)) ?evs) = 1"
      if "dt_add (clock en (length (trace st))) (timedelta_seconds (RENEWAL_INTERVAL cfg)) = Inr T"
        "r \<in> set (store st)" "expires r \<le> strftime T" for T r
    proof -
      from that(1) idle(3) have "T = T1" by simp
      with that(2,3) have "r \<in> set (filter (\<lambda>r. expires r \<le> strftime T1) (store st))" by simp
      with idle(4) show ?thesis by simp
    qed
    show "list_all (list_all2 (row_step (strftime T2)
           (domain ` {r \<in> set (store st). expires r \<le> strftime T})) (store st))
         (store st' # commits ?evs)" for T T2
      by (simp add: idle(2) list_all2_row_step_refl)
  qed
next
  case (renew T1 T2 st3)
  let ?n = "length (trace st)"
  let ?pre = "[ClockRead (clock en ?n), DbSelect, ClockRead (clock en (?n + 2))]"
  let ?subs = "filter (\<lambda>r. expires r \<le> strftime T1) (store st)"
  let ?ds = "unique_domains en ?subs"
  have D: "set ?ds = domain ` {r \<in> set (store st). expires r \<le> strftime T1}"
    by (auto simp: set_unique_domains)
  have d3: "distinct (map subscription_id (store st3))" using assms(2) renew(5) by simp
  from renew_domains_run[OF renew(7) d3 distinct_unique_domains] obtain evs2 where a:
    "trace st' = trace st3 @ evs2"
    "list_all (ev_ok (strftime T2) (set ?ds) (store st3)) evs2"
    "list_all2 (row_step (strftime T2) (set ?ds)) (store st3) (store st')"
    "\<And>d. length (filter (is_refresh_for d) evs2) \<le> (if d \<in> set ?ds then 1 else 0)"
    "res = Inr () \<longrightarrow> (\<forall>d \<in> set ?ds. length (filter (is_refresh_for d) evs2) = 1)"
    "\<And>d. failed_refresh_for en (length (trace st3)) d evs2 \<Longrightarrow>
          (\<exists>e. res = Inl e) \<and> list_all (\<lambda>e. \<not> is_push_for d e) evs2 \<and>
          list_all (\<lambda>rows. filter (\<lambda>r. domain r = d) rows
                             = filter (\<lambda>r. domain r = d) (store st3)) (store st' # commits evs2)"
    by blast
  have l3: "length (trace st3) = ?n + 3" using renew(6) by simp
  show ?thesis
  proof (rule that[of "?pre @ evs2"])
    show "trace st' = trace st @ ?pre @ evs2" using a(1) renew(6) by simp
    show "length (filter (is_refresh_for d) (?pre @ evs2)) \<le> 1" for d
      using a(4)[of d] by (simp split: if_splits)
    show "(\<exists>e. res = Inl e) \<and> list_all (\<lambda>e. \<not> is_push_for d e) (?pre @ evs2) \<and>
       list_all (\<lambda>rows. filter (\<lambda>r. domain r = d) rows = filter (\<lambda>r. domain r = d) (store st))
         (store st' # commits (?pre @ evs2))"
      if "failed_refresh_for en ?n d (?pre @ evs2)" for d
    proof -
      from that have "failed_refresh_for en (?n + 3) d evs2"
        by (simp add: numeral_3_eq_3)
      from a(6)[unfolded l3, OF this] show ?thesis by (simp add: renew(5))
    qed
    show "length (filter (is_refresh_for (domain r)) (?pre @ evs2)) = 1"
      if "res = Inr ()"
        "dt_add (clock en ?n) (timedelta_seconds (RENEWAL_INTERVAL cfg)) = Inr T"
        "r \<in> set (store st)" "expires r \<le> strftime T" for T r
    proof -
      from that(2) renew(1) have "T = T1" by simp
      with that(3,4) have "domain r \<in> set ?ds" unfolding D by blast
      with a(5) that(1) show ?thesis by simp
    qed
    show "list_all (list_all2 (row_step (strftime T2')
           (domain ` {r \<in> set (store st). expires r \<le> strftime T})) (store st))
         (store st' # commits (?pre @ evs2))"
      if "dt_add (clock en ?n) (timedelta_seconds (RENEWAL_INTERVAL cfg)) = Inr T"
        "dt_add (clock en (?n + 2)) (SUBSCRIPTION_DURATION cfg) = Inr T2'" for T T2'
    proof -
      from that renew(1,4) have e: "T = T1" "T2' = T2" by simp_all
      have "list_all2 (row_step (strftime T2) (set ?ds)) (store st) rows"
        if "rows \<in> set (commits evs2)" for rows
      proof -
        from that have "DbCommit rows \<in> set evs2" by (simp add: commits_iff)
        with a(2) have "ev_ok (strftime T2) (set ?ds) (store st3) (DbCommit rows)"
          unfolding list_all_iff by blast
        then show ?thesis by (simp add: renew(5))
      qed
      then show ?thesis using a(3) unfolding e D[symmetric] by (simp add: list_all_iff renew(5))
    qed
  qed
qed

section \<open>The claims\<close>

text \<open>
  Claim C10, as it holds: for every pair of datetimes with four-digit years, rendering
  with the format \<^verbatim>\<open>%Y-%m-%d %H:%M:%S\<close> keeps the order (an earlier datetime never
  renders to a later string); the lexicographic comparison of the two strings is exactly
  the chronological comparison of the two datetimes cut to whole seconds; and a datetime
  of whole seconds compares with any other datetime as its string does with the other's
  string. So the scan \<^verbatim>\<open>fetch_expiring_subscriptions\<close>, which compares the stored
  \<^verbatim>\<open>expires\<close> strings with the rendered threshold, returns exactly the rows whose
  expiry is not after the threshold, when every stored \<^verbatim>\<open>expires\<close> is the rendering
  of a datetime of whole seconds. The format drops the microseconds, so two datetimes
  within the same second render alike whatever their order.
\<close>

theorem strftime_order_scan:
  assumes "valid_datetime a" "valid_datetime b" "1000 \<le> year a" "1000 \<le> year b"
    and "fetch_expiring_subscriptions en cfg st = (Inr rows, st')"
    and "dt_add (clock en (length (trace st))) (timedelta_seconds (RENEWAL_INTERVAL cfg)) = Inr T"
    and "1000 \<le> year T"
    and "\<forall>r \<in> set (store st). valid_datetime (e r) \<and> 1000 \<le> year (e r) \<and>
           microsecond (e r) = 0 \<and> expires r = strftime (e r)"
  shows "(dt_le a b \<longrightarrow> strftime a \<le> strftime b) \<and>
         ((strftime a \<le> strftime b) = dt_le (whole_second a) (whole_second b)) \<and>
         (microsecond a = 0 \<longrightarrow> ((strftime a \<le> strftime b) = dt_le a b)) \<and>
         rows = filter (\<lambda>r. expires r \<le> strftime T) (store st) \<and>
         rows = filter (\<lambda>r. dt_le (e r) T) (store st)"
proof -
  have u: "microsecond a < 1000000" "microsecond b < 1000000"
    using assms by (simp_all add: valid_datetime_def)
  note s = strftime_le_to_s[OF assms(1-4)]
  have 1: "dt_le a b \<longrightarrow> strftime a \<le> strftime b"
    unfolding s to_us_le[OF assms(1,2), symmetric] using to_s_le_of_to_us_le[OF u] by blast
  have 2: "(strftime a \<le> strftime b) = dt_le (whole_second a) (whole_second b)"
    unfolding s dt_le_whole_second[OF assms(1,2)] ..
  have 3: "microsecond a = 0 \<longrightarrow> ((strftime a \<le> strftime b) = dt_le a b)"
    unfolding s to_us_le[OF assms(1,2), symmetric] using to_us_le_whole[OF _ u(2)] by simp
  have 4: "rows = filter (\<lambda>r. expires r \<le> strftime T) (store st)"
    using assms(5,6) by (simp add: fetch_expiring_subscriptions_eq split: if_splits)
  have 5: "rows = filter (\<lambda>r. dt_le (e r) T) (store st)"
    by (rule scan_chronological[OF assms(5-8)])
  from 1 2 3 4 5 show ?thesis by blast
qed

theorem strftime_order_scan_witness:
  "valid_datetime example_now \<and> valid_datetime (example_now\<lparr>second := 7, microsecond := 5\<rparr>) \<and>
   dt_le example_now (example_now\<lparr>second := 7, microsecond := 5\<rparr>) \<and>
   strftime example_now \<le> strftime (example_now\<lparr>second := 7, microsecond := 5\<rparr>) \<and>
   dt_le (whole_second example_now) (whole_second (example_now\<lparr>second := 7, microsecond := 5\<rparr>)) \<and>
   microsecond example_now = 0 \<and>
   fetch_expiring_subscriptions example_env example_config example_state =
     (Inr [example_row 1 ''a.com'' ''s1'' ''2025-01-01 00:30:00'' ''r1'',
           example_row 3 ''b.com'' ''s3'' ''2025-01-01 00:45:00'' ''r3''],
      log DbSelect (log (ClockRead example_now) example_state)) \<and>
   [example_row 1 ''a.com'' ''s1'' ''2025-01-01 00:30:00'' ''r1'',
    example_row 3 ''b.com'' ''s3'' ''2025-01-01 00:45:00'' ''r3'']
     = filter (\<lambda>r. dt_le (example_expiry r) (example_now\<lparr>hour := 1\<rparr>)) example_store"
proof -
  have h: "\<forall>r \<in> set (store example_state). valid_datetime (example_expiry r) \<and>
      1000 \<le> year (example_expiry r) \<and> microsecond (example_expiry r) = 0 \<and>
      expires r = strftime (example_expiry r)"
    by (simp add: example_state_def example_store_def example_row_def example_expiry_def
        example_now_def eval_time)
  have t: "dt_add (clock example_env (length (trace example_state)))
             (timedelta_seconds (RENEWAL_INTERVAL example_config)) = Inr (example_now\<lparr>hour := 1\<rparr>)"
    by (simp add: example_env_simps example_config_simps example_threshold)
  have v: "valid_datetime example_now" "valid_datetime (example_now\<lparr>second := 7, microsecond := 5\<rparr>)"
    "1000 \<le> year example_now" "1000 \<le> year (example_now\<lparr>second := 7, microsecond := 5\<rparr>)"
    "1000 \<le> year (example_now\<lparr>hour := 1\<rparr>)" "microsecond example_now = 0"
    "dt_le example_now (example_now\<lparr>second := 7, microsecond := 5\<rparr>)"
    by (simp_all add: example_now_def eval_time)
  note r = strftime_order_scan[OF v(1-4) example_scan t v(5) h]
  from r v(7) have c1: "strftime example_now \<le> strftime (example_now\<lparr>second := 7, microsecond := 5\<rparr>)"
    by blast
  from r c1 have c2: "dt_le (whole_second example_now)
      (whole_second (example_now\<lparr>second := 7, microsecond := 5\<rparr>))"
    by blast
  from r have c3: "[example_row 1 ''a.com'' ''s1'' ''2025-01-01 00:30:00'' ''r1'',
      example_row 3 ''b.com'' ''s3'' ''2025-01-01 00:45:00'' ''r3'']
     = filter (\<lambda>r. dt_le (example_expiry r) (example_now\<lparr>hour := 1\<rparr>)) (store example_state)"
    by blast
  have st: "store example_state = example_store" by (simp add: example_state_def)
  show ?thesis
    using v(1,2,7) c1 c2 v(6) example_scan c3[unfolded st] by (intro conjI)
qed

theorem strftime_subsecond_counterexample:
  "valid_datetime (example_now\<lparr>microsecond := 500000\<rparr>) \<and> valid_datetime example_now \<and>
   1000 \<le> year example_now \<and> 1000 \<le> year (example_now\<lparr>microsecond := 500000\<rparr>) \<and>
   strftime (example_now\<lparr>microsecond := 500000\<rparr>) \<le> strftime example_now \<and>
   \<not> dt_le (example_now\<lparr>microsecond := 500000\<rparr>) example_now"
  by (simp add: example_now_def eval_time)

text \<open>
  Claim C7: the scan \<^verbatim>\<open>fetch_expiring_subscriptions\<close> returns exactly the stored rows
  whose \<^verbatim>\<open>expires\<close> is at most the current time plus the lead window, which is
  \<^verbatim>\<open>RENEWAL_INTERVAL\<close> seconds, compared as strings in the fixed format and so, for
  stored timestamps of whole seconds, as times; and it writes nothing and calls nothing
  remote: the table is as before and the scan logs only its clock reading and its read
  session. It returns whenever the threshold is a datetime and the database answers.
\<close>

theorem scan_exact_no_effects:
  assumes "fetch_expiring_subscriptions en cfg st = (res, st')"
  shows "store st' = store st \<and>
         (\<exists>evs. trace st' = trace st @ evs \<and>
                list_all (\<lambda>e. \<not> is_remote_call e \<and> \<not> is_commit e) evs) \<and>
         (\<forall>T. dt_add (clock en (length (trace st))) (timedelta_seconds (RENEWAL_INTERVAL cfg)) = Inr T
               \<and> \<not> db_fails en (Suc (length (trace st))) \<longrightarrow>
               res = Inr (filter (\<lambda>r. expires r \<le> strftime T) (store st)) \<and>
               (\<forall>e. 1000 \<le> year T \<and>
                    (\<forall>r \<in> set (store st). valid_datetime (e r) \<and> 1000 \<le> year (e r) \<and>
                        microsecond (e r) = 0 \<and> expires r = strftime (e r)) \<longrightarrow>
                    res = Inr (filter (\<lambda>r. dt_le (e r) T) (store st))))"
proof (intro conjI allI impI)
  show "store st' = store st"
    using assms by (auto simp: fetch_expiring_subscriptions_eq split: sum.splits if_splits)
  show "\<exists>evs. trace st' = trace st @ evs \<and>
          list_all (\<lambda>e. \<not> is_remote_call e \<and> \<not> is_commit e) evs"
  proof (cases "dt_add (clock en (length (trace st))) (timedelta_seconds (RENEWAL_INTERVAL cfg))")
    case (Inl e)
    then show ?thesis using assms
      by (intro exI[of _ "[ClockRead (clock en (length (trace st)))]"])
         (auto simp: fetch_expiring_subscriptions_eq)
  next
    case (Inr T)
    then show ?thesis using assms
      by (cases "db_fails en (Suc (length (trace st)))")
         (auto simp: fetch_expiring_subscriptions_eq
           intro: exI[of _ "[ClockRead (clock en (length (trace st))), DbRollback]"]
                  exI[of _ "[ClockRead (clock en (length (trace st))), DbSelect]"])
  qed
next
  fix T
  assume h: "dt_add (clock en (length (trace st))) (timedelta_seconds (RENEWAL_INTERVAL cfg)) = Inr T
             \<and> \<not> db_fails en (Suc (length (trace st)))"
  then show r: "res = Inr (filter (\<lambda>r. expires r \<le> strftime T) (store st))"
    using assms by (auto simp: fetch_expiring_subscriptions_eq)
  fix e
  assume w: "1000 \<le> year T \<and>
     (\<forall>r \<in> set (store st). valid_datetime (e r) \<and> 1000 \<le> year (e r) \<and> microsecond (e r) = 0 \<and>
         expires r = strftime (e r))"
  have "fetch_expiring_subscriptions en cfg st
        = (Inr (filter (\<lambda>r. expires r \<le> strftime T) (store st)), st')"
    using assms r by simp
  from scan_chronological[OF this, of T e] h w
  have "filter (\<lambda>r. expires r \<le> strftime T) (store st) = filter (\<lambda>r. dt_le (e r) T) (store st)"
    by blast
  then show "res = Inr (filter (\<lambda>r. dt_le (e r) T) (store st))" using r by simp
qed

theorem scan_exact_no_effects_witness:
  "fetch_expiring_subscriptions example_env example_config example_state =
     (Inr [example_row 1 ''a.com'' ''s1'' ''2025-01-01 00:30:00'' ''r1'',
           example_row 3 ''b.com'' ''s3'' ''2025-01-01 00:45:00'' ''r3''],
      \<lparr>store = example_store, trace = [ClockRead example_now, DbSelect]\<rparr>) \<and>
   dt_add (clock example_env 0) (timedelta_seconds (RENEWAL_INTERVAL example_config))
     = Inr (example_now\<lparr>hour := 1\<rparr>) \<and>
   Inr [example_row 1 ''a.com'' ''s1'' ''2025-01-01 00:30:00'' ''r1'',
        example_row 3 ''b.com'' ''s3'' ''2025-01-01 00:45:00'' ''r3'']
     = (Inr (filter (\<lambda>r. dt_le (example_expiry r) (example_now\<lparr>hour := 1\<rparr>)) example_store)
        :: error + Subscriptions list)"
proof -
  have h: "\<forall>r \<in> set (store example_state). valid_datetime (example_expiry r) \<and>
      1000 \<le> year (example_expiry r) \<and> microsecond (example_expiry r) = 0 \<and>
      expires r = strftime (example_expiry r)"
    by (simp add: example_state_def example_store_def example_row_def example_expiry_def
        example_now_def eval_time)
  have t: "dt_add (clock example_env (length (trace example_state)))
             (timedelta_seconds (RENEWAL_INTERVAL example_config)) = Inr (example_now\<lparr>hour := 1\<rparr>)"
    by (simp add: example_env_simps example_config_simps example_threshold)
  have y: "1000 \<le> year (example_now\<lparr>hour := 1\<rparr>)" by (simp add: example_now_def)
  have d: "\<not> db_fails example_env (Suc (length (trace example_state)))"
    by (simp add: example_env_simps)
  have st: "store example_state = example_store" "length (trace example_state) = 0"
    "log DbSelect (log (ClockRead example_now) example_state)
       = \<lparr>store = example_store, trace = [ClockRead example_now, DbSelect]\<rparr>"
    by (simp_all add: example_state_def log_def)
  from scan_exact_no_effects[OF example_scan] t d y h
  have "Inr [example_row 1 ''a.com'' ''s1'' ''2025-01-01 00:30:00'' ''r1'',
        example_row 3 ''b.com'' ''s3'' ''2025-01-01 00:45:00'' ''r3'']
     = (Inr (filter (\<lambda>r. dt_le (example_expiry r) (example_now\<lparr>hour := 1\<rparr>))
           (store example_state)) :: error + Subscriptions list)"
    by blast
  then show ?thesis using example_scan t unfolding st by (intro conjI)
qed



text \<open>
  Claim C5, as it holds: in a cycle at most one token refresh is made for a domain,
  however many of its subscriptions are expiring; and when the cycle ends without an
  exception, exactly one is made for the domain of every stored subscription whose
  \<^verbatim>\<open>expires\<close> is at most the threshold of the scan. A cycle that an exception ends makes
  no refresh for the domains it has not reached: in the example the refresh for
  \<open>a.com\<close> is refused, and none is made for \<open>b.com\<close>, whose subscription \<open>s3\<close> is
  expiring.
\<close>

theorem one_refresh_per_domain:
  assumes "check_and_update_subscriptions en cfg st = (res, st')"
    and "distinct (map subscription_id (store st))"
    and "trace st' = trace st @ evs"
  shows "length (filter (is_refresh_for d) evs) \<le> 1 \<and>
         (res = Inr () \<longrightarrow>
            (\<forall>T1 r. dt_add (clock en (length (trace st))) (timedelta_seconds (RENEWAL_INTERVAL cfg))
                       = Inr T1 \<and> r \<in> set (store st) \<and> expires r \<le> strftime T1 \<longrightarrow>
                    length (filter (is_refresh_for (domain r)) evs) = 1))"
proof (rule cycle_run[OF assms(1,2)])
  fix evs'
  assume a: "trace st' = trace st @ evs'"
    and b: "\<And>d. length (filter (is_refresh_for d) evs') \<le> 1"
    and c: "\<And>T1 r. res = Inr () \<Longrightarrow>
       dt_add (clock en (length (trace st))) (timedelta_seconds (RENEWAL_INTERVAL cfg)) = Inr T1 \<Longrightarrow>
       r \<in> set (store st) \<Longrightarrow> expires r \<le> strftime T1 \<Longrightarrow>
       length (filter (is_refresh_for (domain r)) evs') = 1"
  from a assms(3) have e: "evs' = evs" by simp
  show ?thesis using b[of d] c unfolding e by blast
qed

theorem one_refresh_per_domain_witness:
  "fst (check_and_update_subscriptions example_env example_config example_state) = Inr () \<and>
   distinct (map subscription_id (store example_state)) \<and>
   dt_add (clock example_env (length (trace example_state)))
     (timedelta_seconds (RENEWAL_INTERVAL example_config)) = Inr (example_now\<lparr>hour := 1\<rparr>) \<and>
   example_row 1 ''a.com'' ''s1'' ''2025-01-01 00:30:00'' ''r1'' \<in> set (store example_state) \<and>
   expires (example_row 1 ''a.com'' ''s1'' ''2025-01-01 00:30:00'' ''r1'')
     \<le> strftime (example_now\<lparr>hour := 1\<rparr>) \<and>
   length (filter (is_refresh_for ''a.com'')
     (trace (snd (check_and_update_subscriptions example_env example_config example_state)))) = 1"
proof -
  let ?run = "check_and_update_subscriptions example_env example_config example_state"
  let ?r = "example_row 1 ''a.com'' ''s1'' ''2025-01-01 00:30:00'' ''r1''"
  have ok: "fst ?run = Inr ()" by (simp add: example_cycle)
  have run: "?run = (Inr (), snd ?run)" using ok by (simp add: prod_eq_iff)
  have d: "distinct (map subscription_id (store example_state))"
    by (simp add: example_state_def example_store_def example_row_def)
  have t: "trace (snd ?run) = trace example_state @ trace (snd ?run)"
    by (simp add: example_state_def)
  have T: "dt_add (clock example_env (length (trace example_state)))
     (timedelta_seconds (RENEWAL_INTERVAL example_config)) = Inr (example_now\<lparr>hour := 1\<rparr>)"
    by (simp add: example_env_simps example_config_simps example_threshold)
  have m: "?r \<in> set (store example_state)"
    by (simp add: example_state_def example_store_def)
  have x: "expires ?r \<le> strftime (example_now\<lparr>hour := 1\<rparr>)"
    by (simp add: example_row_def example_strftime)
  have dom: "domain ?r = ''a.com''" by (simp add: example_row_def)
  note r = one_refresh_per_domain[OF run d t, of "''a.com''"]
  from r T m x have "length (filter (is_refresh_for (domain ?r)) (trace (snd ?run))) = 1"
    by blast
  then have c: "length (filter (is_refresh_for ''a.com'') (trace (snd ?run))) = 1"
    unfolding dom .
  show ?thesis using ok d T m x c by (intro conjI)
qed

theorem no_refresh_after_failure_counterexample:
  "check_and_update_subscriptions refresh_refused_env example_config example_state =
     (Inl (Exception ''Failed to refresh token''),
      \<lparr>store = example_store,
       trace = [ClockRead example_now, DbSelect, ClockRead example_now, DbSelect,
                RefreshRequest ''a.com'' ''r1'']\<rparr>) \<and>
   dt_add (clock refresh_refused_env (length (trace example_state)))
     (timedelta_seconds (RENEWAL_INTERVAL example_config)) = Inr (example_now\<lparr>hour := 1\<rparr>) \<and>
   example_row 3 ''b.com'' ''s3'' ''2025-01-01 00:45:00'' ''r3'' \<in> set (store example_state) \<and>
   expires (example_row 3 ''b.com'' ''s3'' ''2025-01-01 00:45:00'' ''r3'')
     \<le> strftime (example_now\<lparr>hour := 1\<rparr>) \<and>
   domain (example_row 3 ''b.com'' ''s3'' ''2025-01-01 00:45:00'' ''r3'') = ''b.com'' \<and>
   length (filter (is_refresh_for ''b.com'')
     [ClockRead example_now, DbSelect, ClockRead example_now, DbSelect,
      RefreshRequest ''a.com'' ''r1'']) = 0"
proof -
  have T: "dt_add (clock refresh_refused_env (length (trace example_state)))
     (timedelta_seconds (RENEWAL_INTERVAL example_config)) = Inr (example_now\<lparr>hour := 1\<rparr>)"
    by (simp add: refresh_refused_env_simps example_config_simps example_threshold)
  have m: "example_row 3 ''b.com'' ''s3'' ''2025-01-01 00:45:00'' ''r3'' \<in> set (store example_state)"
    by (simp add: example_state_def example_store_def)
  have x: "expires (example_row 3 ''b.com'' ''s3'' ''2025-01-01 00:45:00'' ''r3'')
     \<le> strftime (example_now\<lparr>hour := 1\<rparr>)"
    "domain (example_row 3 ''b.com'' ''s3'' ''2025-01-01 00:45:00'' ''r3'') = ''b.com''"
    by (simp_all add: example_row_def example_strftime)
  have c: "length (filter (is_refresh_for ''b.com'')
     [ClockRead example_now, DbSelect, ClockRead example_now, DbSelect,
      RefreshRequest ''a.com'' ''r1'']) = 0"
    by simp
  show ?thesis using refused_cycle T m x c by (intro conjI)
qed




end
